theory Spec2Isabelle
  imports Complex_Main "HOL-Library.AList"
begin

section \<open>Data model\<close>

text \<open>
  The shared contracts of the repository (the typedefs \<^verbatim>\<open>Graph\<close>, \<^verbatim>\<open>Edge\<close>,
  \<^verbatim>\<open>AdjacencyMatrix\<close>, \<^verbatim>\<open>ColorAssignment\<close>, \<^verbatim>\<open>Constraint\<close>, \<^verbatim>\<open>StateSnapshot\<close> and
  \<^verbatim>\<open>AlgorithmOptions\<close>). A node is kept as its \<^verbatim>\<open>id\<close>: no function of the engine
  reads any other field of a node. An edge is the pair (source, target).
  JavaScript numbers are modelled as \<open>int\<close>; the sentinel \<open>-1\<close> of the algorithms
  (an uncolored vertex) is kept as it is.
\<close>

datatype error = NoGraphLoaded | TypeError

type_synonym AdjacencyMatrix = "int list list"

text \<open>The graph handed to \<^verbatim>\<open>loadGraph\<close>: its \<^verbatim>\<open>adjacency\<close> may be missing.\<close>

record GraphInput =
  input_nodes :: "string list"
  input_edges :: "(string \<times> string) list"
  input_adjacency :: "AdjacencyMatrix option"

text \<open>The graph after \<^verbatim>\<open>_preprocessGraph\<close>: the matrix is present.\<close>

record Graph =
  nodes :: "string list"
  edges :: "(string \<times> string) list"
  adjacency :: AdjacencyMatrix

record Constraint =
  nodeId :: string
  colorIndex :: "int option"
  forbidden :: "int list option"

record AlgorithmOptions =
  opt_algorithm :: "string option"
  opt_maxColors :: "int option"
  opt_constraints :: "Constraint list option"

text \<open>
  A palette entry is a hex code of a base palette, or the string
  \<^verbatim>\<open>hsl(${hue}, 70%, 50%)\<close> that DSATUR generates, kept as its hue. The source computes
  the hue in double precision; the model keeps the exact rational value.
\<close>

datatype color = Hex string | Hsl rat

text \<open>The \<^verbatim>\<open>metadata\<close> that only Welsh-Powell attaches to its result.\<close>

record Metadata =
  meta_algorithm :: string
  vertexOrder :: "string list"
  degreeDistribution :: "int list"

text \<open>
  \<^verbatim>\<open>assignments\<close> is a JavaScript object keyed by node id: an association list in
  insertion order, written with \<open>AList.update\<close> (an existing key keeps its place, a
  new key goes to the end) and read with \<open>map_of\<close>; \<open>None\<close> is \<^verbatim>\<open>undefined\<close>.
\<close>

record ColorAssignment =
  assignments :: "(string \<times> int) list"
  palette :: "color list"
  chromatic :: int
  valid :: bool
  metadata :: "Metadata option"

section \<open>JavaScript array primitives\<close>

text \<open>\<^verbatim>\<open>xs.slice(0, e)\<close>: a negative end counts from the end of the array.\<close>

definition slice0 :: "'a list \<Rightarrow> int \<Rightarrow> 'a list" where
  "slice0 xs e = take (if e < 0 then nat (max (int (length xs) + e) 0) else nat e) xs"

text \<open>\<^verbatim>\<open>xs.findIndex(p)\<close>: the first position that satisfies \<open>p\<close>; \<open>None\<close> is \<open>-1\<close>.\<close>

fun findIndex :: "('a \<Rightarrow> bool) \<Rightarrow> 'a list \<Rightarrow> nat option" where
  "findIndex p [] = None"
| "findIndex p (x # xs) = (if p x then Some 0 else map_option Suc (findIndex p xs))"

text \<open>
  Reads of an array: \<^verbatim>\<open>xs[i]\<close> beyond the end is \<^verbatim>\<open>undefined\<close> (\<open>None\<close>), and
  \<^verbatim>\<open>adjacency[v][i]\<close> raises a TypeError when the row \<^verbatim>\<open>adjacency[v]\<close> is missing.
\<close>

definition elemAt :: "'a list \<Rightarrow> nat \<Rightarrow> 'a option" where
  "elemAt xs i = (if i < length xs then Some (xs ! i) else None)"

definition elemAtInt :: "'a list \<Rightarrow> int \<Rightarrow> 'a option" where
  "elemAtInt xs k = (if k < 0 then None else elemAt xs (nat k))"

text \<open>Running a fallible function over an array stops at the first exception.\<close>

fun collect :: "('a \<Rightarrow> error + 'b) \<Rightarrow> 'a list \<Rightarrow> error + 'b list" where
  "collect f [] = Inr []"
| "collect f (x # xs) =
     (case f x of
        Inl e \<Rightarrow> Inl e
      | Inr y \<Rightarrow> (case collect f xs of Inl e \<Rightarrow> Inl e | Inr ys \<Rightarrow> Inr (y # ys)))"

section \<open>AdjacencyModel: \<^verbatim>\<open>TheoremEngine._buildAdjacencyMatrix\<close>\<close>

text \<open>
  \<^verbatim>\<open>new Map(graph.nodes.map((node, i) => [node.id, i]))\<close>: the pairs are inserted in
  order, so a repeated id keeps its last position.
\<close>

definition nodeIndexMap :: "string list \<Rightarrow> (string \<rightharpoonup> nat)" where
  "nodeIndexMap ids = foldl (\<lambda>m (k, i). m(k \<mapsto> i)) Map.empty (zip ids [0..<length ids])"

text \<open>\<^verbatim>\<open>matrix[i][j] = 1\<close>, for positions that the index map returned.\<close>

definition setCell :: "AdjacencyMatrix \<Rightarrow> nat \<Rightarrow> nat \<Rightarrow> AdjacencyMatrix" where
  "setCell matrix i j = matrix[i := (matrix ! i)[j := 1]]"

definition addEdge :: "(string \<rightharpoonup> nat) \<Rightarrow> AdjacencyMatrix \<Rightarrow> string \<times> string \<Rightarrow> AdjacencyMatrix" where
  "addEdge idx matrix edge =
     (case (idx (fst edge), idx (snd edge)) of
        (Some i, Some j) \<Rightarrow> setCell (setCell matrix i j) j i
      | _ \<Rightarrow> matrix)"

definition buildAdjacencyMatrix :: "string list \<Rightarrow> (string \<times> string) list \<Rightarrow> AdjacencyMatrix" where
  "buildAdjacencyMatrix ids es =
     (let n = length ids;
          matrix = replicate n (replicate n 0)
      in foldl (addEdge (nodeIndexMap ids)) matrix es)"

text \<open>The AdjacencyModel's invariants, as predicates on a loaded graph.\<close>

definition square :: "nat \<Rightarrow> AdjacencyMatrix \<Rightarrow> bool" where
  "square n m \<longleftrightarrow> length m = n \<and> (\<forall>row \<in> set m. length row = n)"

definition symmetric :: "AdjacencyMatrix \<Rightarrow> bool" where
  "symmetric m \<longleftrightarrow> (\<forall>i < length m. \<forall>j < length m. m ! i ! j = m ! j ! i)"

definition wf_graph :: "Graph \<Rightarrow> bool" where
  "wf_graph g \<longleftrightarrow> square (length (nodes g)) (adjacency g)"

text \<open>An edge joins the positions \<open>a\<close> and \<open>b\<close> when the index map resolves its two ends to them.\<close>

definition connects :: "(string \<rightharpoonup> nat) \<Rightarrow> string \<times> string \<Rightarrow> nat \<Rightarrow> nat \<Rightarrow> bool" where
  "connects idx e a b \<longleftrightarrow>
     (idx (fst e) = Some a \<and> idx (snd e) = Some b) \<or> (idx (fst e) = Some b \<and> idx (snd e) = Some a)"

section \<open>ColoringAlgorithms\<close>

subsection \<open>What the three classes share\<close>

text \<open>
  \<^verbatim>\<open>options.maxColors || 4\<close>: a missing value and \<open>0\<close> are both falsy.
\<close>

definition resolveMaxColors :: "AlgorithmOptions \<Rightarrow> int" where
  "resolveMaxColors opts = (case opt_maxColors opts of None \<Rightarrow> 4 | Some m \<Rightarrow> if m = 0 then 4 else m)"

text \<open>
  The body of \<^verbatim>\<open>constraints.forEach\<close>: the first node with the constraint's id is pinned
  when the constraint has a \<^verbatim>\<open>colorIndex\<close>. \<^verbatim>\<open>forbidden\<close> is never read.
\<close>

definition applyConstraint :: "string list \<Rightarrow> int list \<Rightarrow> Constraint \<Rightarrow> int list" where
  "applyConstraint ns colors c =
     (case (findIndex (\<lambda>node. node = nodeId c) ns, colorIndex c) of
        (Some nodeIndex, Some ci) \<Rightarrow> colors[nodeIndex := ci]
      | _ \<Rightarrow> colors)"

definition applyConstraints :: "string list \<Rightarrow> Constraint list \<Rightarrow> int list \<Rightarrow> int list" where
  "applyConstraints ns cs colors = foldl (applyConstraint ns) colors cs"

text \<open>
  The set that \<^verbatim>\<open>_getAvailableColors\<close> and \<^verbatim>\<open>_getSaturationDegree\<close> both build:
  for \<open>i\<close> below \<^verbatim>\<open>adjacency.length\<close>, \<^verbatim>\<open>colors[i]\<close> is added when
  \<^verbatim>\<open>adjacency[vertex][i] === 1 && colors[i] !== -1\<close>. With an empty matrix the loop
  body never runs; otherwise a missing row raises.
\<close>

definition usedColors :: "nat \<Rightarrow> int list \<Rightarrow> AdjacencyMatrix \<Rightarrow> error + int option list" where
  "usedColors vertex colors adj =
     (if adj = [] then Inr []
      else if vertex < length adj then
        Inr (map (elemAt colors)
              (filter (\<lambda>i. elemAt (adj ! vertex) i = Some 1 \<and> elemAt colors i \<noteq> Some (- 1))
                 [0..<length adj]))
      else Inl TypeError)"

text \<open>\<^verbatim>\<open>_getAvailableColors\<close>, the same text in the three classes.\<close>

definition getAvailableColors :: "nat \<Rightarrow> int list \<Rightarrow> AdjacencyMatrix \<Rightarrow> int \<Rightarrow> error + int list" where
  "getAvailableColors vertex colors adj maxColors =
     (case usedColors vertex colors adj of
        Inl e \<Rightarrow> Inl e
      | Inr used \<Rightarrow> Inr (filter (\<lambda>color. Some color \<notin> set used) [0..maxColors - 1]))"

text \<open>
  The conversion loop at the end of every \<^verbatim>\<open>compute\<close>: the mapping and
  \<^verbatim>\<open>maxColorUsed\<close>. \<open>colors\<close> has one entry per node here: it is created by
  \<^verbatim>\<open>new Array(n).fill(-1)\<close> and only written at positions below \<open>n\<close>.
\<close>

definition toOutput :: "string list \<Rightarrow> int list \<Rightarrow> (string \<times> int) list \<times> int" where
  "toOutput ns colors =
     foldl (\<lambda>(asg, maxColorUsed) i.
              if colors ! i \<noteq> - 1
              then (AList.update (ns ! i) (colors ! i) asg, max maxColorUsed (colors ! i))
              else (asg, maxColorUsed))
       ([], - 1) [0..<length ns]"

definition baseColors :: "color list" where
  "baseColors = [Hex ''#E63946'', Hex ''#457B9D'', Hex ''#F1C40F'', Hex ''#27AE60'']"

subsection \<open>\<^verbatim>\<open>GreedyAlgorithm\<close>\<close>

definition greedy_generatePalette :: "int \<Rightarrow> color list" where
  "greedy_generatePalette numColors = slice0 baseColors (min numColors 4)"

text \<open>
  The loop \<^verbatim>\<open>for (let i = 0; i < n; i++)\<close>. \<open>Inr None\<close> is the early return of the
  invalid assignment, \<open>Inr (Some colors)\<close> the end of the loop.
\<close>

function greedy_loop :: "Graph \<Rightarrow> int \<Rightarrow> nat \<Rightarrow> int list \<Rightarrow> error + int list option" where
  "greedy_loop g maxColors i colors =
     (if i < length (nodes g) then
        (if colors ! i = - 1 then
           (case getAvailableColors i colors (adjacency g) maxColors of
              Inl e \<Rightarrow> Inl e
            | Inr [] \<Rightarrow> Inr None
            | Inr (c # _) \<Rightarrow> greedy_loop g maxColors (i + 1) (colors[i := c]))
         else greedy_loop g maxColors (i + 1) colors)
      else Inr (Some colors))"
  by pat_completeness auto
termination
  by (relation "measure (\<lambda>(g, maxColors, i, colors). length (nodes g) - i)") auto

declare greedy_loop.simps [simp del]

definition initialColors :: "Graph \<Rightarrow> AlgorithmOptions \<Rightarrow> int list" where
  "initialColors g opts =
     (case opt_constraints opts of
        None \<Rightarrow> replicate (length (nodes g)) (- 1)
      | Some cs \<Rightarrow> applyConstraints (nodes g) cs (replicate (length (nodes g)) (- 1)))"

definition greedy_compute :: "Graph \<Rightarrow> AlgorithmOptions \<Rightarrow> error + ColorAssignment" where
  "greedy_compute g opts =
     (let maxColors = resolveMaxColors opts in
      case greedy_loop g maxColors 0 (initialColors g opts) of
        Inl e \<Rightarrow> Inl e
      | Inr None \<Rightarrow>
          Inr \<lparr>assignments = [], palette = greedy_generatePalette maxColors,
               chromatic = 0, valid = False, metadata = None\<rparr>
      | Inr (Some colors) \<Rightarrow>
          (let (asg, maxColorUsed) = toOutput (nodes g) colors in
           Inr \<lparr>assignments = asg, palette = greedy_generatePalette (maxColorUsed + 1),
                chromatic = maxColorUsed + 1, valid = True, metadata = None\<rparr>))"

subsection \<open>\<^verbatim>\<open>WelshPowellAlgorithm\<close>\<close>

definition emergencyColors :: "color list" where
  "emergencyColors = [Hex ''#DC143C'', Hex ''#4169E1'', Hex ''#FFD700'', Hex ''#228B22'']"

definition welshPowell_generatePalette :: "int \<Rightarrow> color list" where
  "welshPowell_generatePalette numColors = slice0 emergencyColors (min numColors 4)"

text \<open>\<^verbatim>\<open>adjacency[i].reduce((sum, val) => sum + val, 0)\<close>: a missing row raises.\<close>

definition rowDegree :: "AdjacencyMatrix \<Rightarrow> nat \<Rightarrow> error + int" where
  "rowDegree adj i = (if i < length adj then Inr (sum_list (adj ! i)) else Inl TypeError)"

text \<open>The loop \<^verbatim>\<open>for (const vertex of degrees)\<close> over the sorted vertices.\<close>

fun welshPowell_loop :: "Graph \<Rightarrow> int \<Rightarrow> nat list \<Rightarrow> int list \<Rightarrow> error + int list option" where
  "welshPowell_loop g maxColors [] colors = Inr (Some colors)"
| "welshPowell_loop g maxColors (v # vs) colors =
     (if colors ! v = - 1 then
        (case getAvailableColors v colors (adjacency g) maxColors of
           Inl e \<Rightarrow> Inl e
         | Inr [] \<Rightarrow> Inr None
         | Inr (c # _) \<Rightarrow> welshPowell_loop g maxColors vs (colors[v := c]))
      else welshPowell_loop g maxColors vs colors)"

text \<open>
  \<^verbatim>\<open>degrees.sort((a, b) => b.degree - a.degree)\<close>: \<^verbatim>\<open>Array.prototype.sort\<close> is stable, and
  so is \<open>sort_key\<close>.
\<close>

definition welshPowell_compute :: "Graph \<Rightarrow> AlgorithmOptions \<Rightarrow> error + ColorAssignment" where
  "welshPowell_compute g opts =
     (let n = length (nodes g); maxColors = resolveMaxColors opts in
      case collect (rowDegree (adjacency g)) [0..<n] of
        Inl e \<Rightarrow> Inl e
      | Inr ds \<Rightarrow>
         (let degrees = sort_key (\<lambda>(i, d). - d) (zip [0..<n] ds) in
          case welshPowell_loop g maxColors (map fst degrees) (initialColors g opts) of
            Inl e \<Rightarrow> Inl e
          | Inr None \<Rightarrow>
              Inr \<lparr>assignments = [], palette = welshPowell_generatePalette maxColors,
                   chromatic = 0, valid = False, metadata = None\<rparr>
          | Inr (Some colors) \<Rightarrow>
              (let (asg, maxColorUsed) = toOutput (nodes g) colors in
               Inr \<lparr>assignments = asg, palette = welshPowell_generatePalette (maxColorUsed + 1),
                    chromatic = maxColorUsed + 1, valid = True,
                    metadata = Some \<lparr>meta_algorithm = ''Welsh-Powell'',
                      vertexOrder = map (\<lambda>(i, d). nodes g ! i) degrees,
                      degreeDistribution = map snd degrees\<rparr>\<rparr>)))"

subsection \<open>\<^verbatim>\<open>DSATURAlgorithm\<close>\<close>

text \<open>\<^verbatim>\<open>_getSaturationDegree\<close>: the size of the set of neighbour colors.\<close>

definition getSaturationDegree :: "nat \<Rightarrow> int list \<Rightarrow> AdjacencyMatrix \<Rightarrow> error + int" where
  "getSaturationDegree vertex colors adj =
     (case usedColors vertex colors adj of
        Inl e \<Rightarrow> Inl e
      | Inr neighborColors \<Rightarrow> Inr (int (length (remdups neighborColors))))"

text \<open>
  \<^verbatim>\<open>hueStep = 360 / numColors; hue = (i * hueStep) % 360\<close>, on non-negative operands.
\<close>

definition hueOf :: "int \<Rightarrow> int \<Rightarrow> rat" where
  "hueOf i numColors =
     (let hueStep = 360 / of_int numColors; x = of_int i * hueStep
      in x - 360 * of_int \<lfloor>x / 360\<rfloor>)"

definition dsatur_generatePalette :: "int \<Rightarrow> color list" where
  "dsatur_generatePalette numColors =
     (if numColors \<le> 4 then slice0 baseColors numColors
      else baseColors @ map (\<lambda>i. Hsl (hueOf i numColors)) [4..numColors - 1])"

text \<open>
  The scan \<^verbatim>\<open>for (let i = 0; i < n; i++)\<close> inside the while loop, over the state
  \<^verbatim>\<open>(maxSat, maxDeg, chosenVertex)\<close>; \<open>None\<close> is the \<open>-1\<close> of \<^verbatim>\<open>chosenVertex\<close>.
\<close>

fun selectVertex ::
  "AdjacencyMatrix \<Rightarrow> int list \<Rightarrow> int list \<Rightarrow> nat list \<Rightarrow> int \<times> int \<times> nat option
     \<Rightarrow> error + int \<times> int \<times> nat option" where
  "selectVertex adj colors degree [] st = Inr st"
| "selectVertex adj colors degree (i # rest) (maxSat, maxDeg, chosenVertex) =
     (if colors ! i = - 1 then
        (case getSaturationDegree i colors adj of
           Inl e \<Rightarrow> Inl e
         | Inr sat \<Rightarrow>
             if sat > maxSat \<or> (sat = maxSat \<and> degree ! i > maxDeg)
             then selectVertex adj colors degree rest (sat, degree ! i, Some i)
             else selectVertex adj colors degree rest (maxSat, maxDeg, chosenVertex))
      else selectVertex adj colors degree rest (maxSat, maxDeg, chosenVertex))"

text \<open>
  One pass through the body of \<^verbatim>\<open>while (colored < n)\<close>: the \<^verbatim>\<open>break\<close>, the early return
  of the invalid assignment, or the vertex colored and its color.
\<close>

datatype step = Break | Exhausted | Colored nat int

definition dsatur_step :: "Graph \<Rightarrow> int \<Rightarrow> int list \<Rightarrow> int list \<Rightarrow> error + step" where
  "dsatur_step g maxColors degree colors =
     (case selectVertex (adjacency g) colors degree [0..<length (nodes g)] (- 1, - 1, None) of
        Inl e \<Rightarrow> Inl e
      | Inr (maxSat, maxDeg, None) \<Rightarrow> Inr Break
      | Inr (maxSat, maxDeg, Some chosenVertex) \<Rightarrow>
          (case getAvailableColors chosenVertex colors (adjacency g) maxColors of
             Inl e \<Rightarrow> Inl e
           | Inr [] \<Rightarrow> Inr Exhausted
           | Inr (c # _) \<Rightarrow> Inr (Colored chosenVertex c)))"

function dsatur_loop ::
  "Graph \<Rightarrow> int \<Rightarrow> int list \<Rightarrow> nat \<Rightarrow> int list \<Rightarrow> error + int list option" where
  "dsatur_loop g maxColors degree colored colors =
     (if colored < length (nodes g) then
        (case dsatur_step g maxColors degree colors of
           Inl e \<Rightarrow> Inl e
         | Inr Break \<Rightarrow> Inr (Some colors)
         | Inr Exhausted \<Rightarrow> Inr None
         | Inr (Colored chosenVertex c) \<Rightarrow>
             dsatur_loop g maxColors degree (colored + 1) (colors[chosenVertex := c]))
      else Inr (Some colors))"
  by pat_completeness auto
termination
  by (relation "measure (\<lambda>(g, maxColors, degree, colored, colors). length (nodes g) - colored)") auto

declare dsatur_loop.simps [simp del]

text \<open>\<^verbatim>\<open>constraints.filter(c => c.colorIndex !== undefined).length\<close>.\<close>

definition initialColored :: "Constraint list \<Rightarrow> nat" where
  "initialColored cs = length (filter (\<lambda>c. colorIndex c \<noteq> None) cs)"

definition dsatur_compute :: "Graph \<Rightarrow> AlgorithmOptions \<Rightarrow> error + ColorAssignment" where
  "dsatur_compute g opts =
     (let n = length (nodes g); maxColors = resolveMaxColors opts;
          cs = (case opt_constraints opts of None \<Rightarrow> [] | Some cs \<Rightarrow> cs);
          colors = applyConstraints (nodes g) cs (replicate n (- 1))
      in case collect (rowDegree (adjacency g)) [0..<n] of
        Inl e \<Rightarrow> Inl e
      | Inr degree \<Rightarrow>
         (case dsatur_loop g maxColors degree (initialColored cs) colors of
            Inl e \<Rightarrow> Inl e
          | Inr None \<Rightarrow>
              Inr \<lparr>assignments = [], palette = dsatur_generatePalette maxColors,
                   chromatic = 0, valid = False, metadata = None\<rparr>
          | Inr (Some colors') \<Rightarrow>
              (let (asg, maxColorUsed) = toOutput (nodes g) colors' in
               Inr \<lparr>assignments = asg, palette = dsatur_generatePalette (maxColorUsed + 1),
                    chromatic = maxColorUsed + 1, valid = True, metadata = None\<rparr>)))"

section \<open>HistoryManager\<close>

text \<open>
  The class of \<^verbatim>\<open>history.js\<close>. \<^verbatim>\<open>structuredClone\<close> is the identity on values: a
  snapshot in the model is a value, with no structure shared with the live state.
\<close>

record 'a HistoryManager =
  maxSteps :: int
  stack :: "'a list"
  index :: int

definition newHistoryManager :: "int \<Rightarrow> 'a HistoryManager" where
  "newHistoryManager c = \<lparr>maxSteps = c, stack = [], index = - 1\<rparr>"

definition push :: "'a HistoryManager \<Rightarrow> 'a \<Rightarrow> 'a HistoryManager" where
  "push h state =
     (let s1 = slice0 (stack h) (index h + 1) @ [state];
          s2 = (if int (length s1) > maxSteps h then tl s1 else s1)
      in h\<lparr>stack := s2, index := int (length s2) - 1\<rparr>)"

text \<open>\<open>None\<close> is the \<^verbatim>\<open>null\<close> of a no-op (or the \<^verbatim>\<open>undefined\<close> of a read off the stack).\<close>

definition history_undo :: "'a HistoryManager \<Rightarrow> 'a option \<times> 'a HistoryManager" where
  "history_undo h =
     (if index h \<le> 0 then (None, h)
      else (let h' = h\<lparr>index := index h - 1\<rparr> in (elemAtInt (stack h') (index h'), h')))"

definition history_redo :: "'a HistoryManager \<Rightarrow> 'a option \<times> 'a HistoryManager" where
  "history_redo h =
     (if index h \<ge> int (length (stack h)) - 1 then (None, h)
      else (let h' = h\<lparr>index := index h + 1\<rparr> in (elemAtInt (stack h') (index h'), h')))"

text \<open>The states a manager of capacity \<open>c\<close> can be in.\<close>

inductive reachable :: "int \<Rightarrow> 'a HistoryManager \<Rightarrow> bool" for c :: int where
  reachable_new: "reachable c (newHistoryManager c)"
| reachable_push: "reachable c h \<Longrightarrow> reachable c (push h s)"
| reachable_undo: "reachable c h \<Longrightarrow> reachable c (snd (history_undo h))"
| reachable_redo: "reachable c h \<Longrightarrow> reachable c (snd (history_redo h))"

section \<open>TheoremEngine\<close>

text \<open>
  The action label of a snapshot is a template string of the source; the model keeps
  the template and its arguments.
\<close>

datatype action = AutoColored string | ColoredNode string int | ResetToUncolored

record StateSnapshot =
  coloring :: ColorAssignment
  timestamp :: int
  action :: action

text \<open>
  Modelled from the spec: the class \<^verbatim>\<open>StateManager\<close> of \<^verbatim>\<open>state-manager.js\<close>, which the
  engine imports and which is not among the sources. The spec describes the engine's
  history as the HistoryManager above (push truncates after the cursor, appends a deep
  copy, discards the oldest entry beyond the capacity; undo and redo move the cursor or
  return nothing), and \<^verbatim>\<open>clear\<close> as emptying the history.
\<close>

definition newStateManager :: "int \<Rightarrow> StateSnapshot HistoryManager" where
  "newStateManager c = newHistoryManager c"

definition pushState :: "StateSnapshot HistoryManager \<Rightarrow> StateSnapshot \<Rightarrow> StateSnapshot HistoryManager" where
  "pushState h s = push h s"

definition clear :: "StateSnapshot HistoryManager \<Rightarrow> StateSnapshot HistoryManager" where
  "clear h = h\<lparr>stack := [], index := - 1\<rparr>"

record TheoremEngine =
  maxUndoSteps :: int
  stateManager :: "StateSnapshot HistoryManager"
  currentGraph :: "Graph option"
  currentColoring :: "ColorAssignment option"

text \<open>The constructor: \<^verbatim>\<open>options.maxUndoSteps || 20\<close>.\<close>

definition newTheoremEngine :: "int option \<Rightarrow> TheoremEngine" where
  "newTheoremEngine opt =
     (let m = (case opt of None \<Rightarrow> 20 | Some k \<Rightarrow> if k = 0 then 20 else k)
      in \<lparr>maxUndoSteps = m, stateManager = newStateManager m,
          currentGraph = None, currentColoring = None\<rparr>)"

definition preprocessGraph :: "GraphInput \<Rightarrow> Graph" where
  "preprocessGraph graph =
     \<lparr>nodes = input_nodes graph, edges = input_edges graph,
      adjacency = (case input_adjacency graph of
                     None \<Rightarrow> buildAdjacencyMatrix (input_nodes graph) (input_edges graph)
                   | Some m \<Rightarrow> m)\<rparr>"

definition emptyColoring :: "color list \<Rightarrow> ColorAssignment" where
  "emptyColoring p = \<lparr>assignments = [], palette = p, chromatic = 0, valid = False, metadata = None\<rparr>"

definition loadGraph :: "TheoremEngine \<Rightarrow> GraphInput \<Rightarrow> TheoremEngine" where
  "loadGraph e graph =
     e\<lparr>currentGraph := Some (preprocessGraph graph),
       stateManager := clear (stateManager e),
       currentColoring := Some (emptyColoring [])\<rparr>"

text \<open>
  \<^verbatim>\<open>validateColoring\<close>: the two nested loops, \<open>j\<close> from \<open>i + 1\<close>. \<open>Inr False\<close> is the
  \<^verbatim>\<open>return false\<close> at a conflict; reading \<^verbatim>\<open>adjacency[i][j]\<close> on a missing row raises.
\<close>

fun validate_inner ::
  "AdjacencyMatrix \<Rightarrow> string list \<Rightarrow> (string \<times> int) list \<Rightarrow> nat \<Rightarrow> nat list \<Rightarrow> error + bool" where
  "validate_inner adj ns asg i [] = Inr True"
| "validate_inner adj ns asg i (j # js) =
     (if i < length adj then
        (if elemAt (adj ! i) j = Some 1 \<and>
            map_of asg (ns ! i) = map_of asg (ns ! j) \<and> map_of asg (ns ! i) \<noteq> None
         then Inr False
         else validate_inner adj ns asg i js)
      else Inl TypeError)"

fun validate_outer ::
  "AdjacencyMatrix \<Rightarrow> string list \<Rightarrow> (string \<times> int) list \<Rightarrow> nat list \<Rightarrow> error + bool" where
  "validate_outer adj ns asg [] = Inr True"
| "validate_outer adj ns asg (i # is) =
     (case validate_inner adj ns asg i [i + 1..<length ns] of
        Inl e \<Rightarrow> Inl e
      | Inr ok \<Rightarrow> if ok then validate_outer adj ns asg is else Inr False)"

definition validateColoring :: "TheoremEngine \<Rightarrow> ColorAssignment option \<Rightarrow> error + bool" where
  "validateColoring e arg =
     (let toValidate = (case arg of Some c \<Rightarrow> Some c | None \<Rightarrow> currentColoring e) in
      case (toValidate, currentGraph e) of
        (Some c, Some g) \<Rightarrow>
          validate_outer (adjacency g) (nodes g) (assignments c) [0..<length (nodes g)]
      | _ \<Rightarrow> Inr False)"

text \<open>
  \<^verbatim>\<open>_selectAlgorithm\<close>. \<^verbatim>\<open>BacktrackingAlgorithm\<close> (\<^verbatim>\<open>algorithms/backtracking.js\<close>) is
  not among the sources: its \<^verbatim>\<open>compute\<close> is a parameter.
\<close>

type_synonym compute = "Graph \<Rightarrow> AlgorithmOptions \<Rightarrow> error + ColorAssignment"

definition selectAlgorithm :: "compute \<Rightarrow> string option \<Rightarrow> compute" where
  "selectAlgorithm backtracking algorithmName =
     (if algorithmName = Some ''dsatur'' then dsatur_compute
      else if algorithmName = Some ''welsh-powell'' then welshPowell_compute
      else if algorithmName = Some ''backtracking'' then backtracking
      else greedy_compute)"

text \<open>
  \<^verbatim>\<open>computeColoring\<close>. The result is what the caller gets (an exception or the
  coloring) and the engine afterwards; \<open>now\<close> is \<^verbatim>\<open>Date.now()\<close>.
\<close>

definition computeColoring ::
  "compute \<Rightarrow> int \<Rightarrow> TheoremEngine \<Rightarrow> AlgorithmOptions \<Rightarrow> (error + ColorAssignment) \<times> TheoremEngine" where
  "computeColoring backtracking now e opts =
     (case currentGraph e of
        None \<Rightarrow> (Inl NoGraphLoaded, e)
      | Some g \<Rightarrow>
         (case selectAlgorithm backtracking (opt_algorithm opts) g opts of
            Inl err \<Rightarrow> (Inl err, e)
          | Inr c \<Rightarrow>
             (Inr c,
              e\<lparr>currentColoring := Some c,
                stateManager := pushState (stateManager e)
                  \<lparr>coloring = c, timestamp = now,
                   action = AutoColored
                     (case opt_algorithm opts of
                        None \<Rightarrow> ''default''
                      | Some a \<Rightarrow> if a = [] then ''default'' else a)\<rparr>\<rparr>)))"

definition defaultPalette :: "color list" where
  "defaultPalette = [Hex ''#E63946'', Hex ''#457B9D'', Hex ''#F1C40F'', Hex ''#27AE60'']"

text \<open>
  \<^verbatim>\<open>assignColor\<close>: the current coloring is updated in place, its \<^verbatim>\<open>chromatic\<close> is the
  size of the set of its values, it is revalidated, and a snapshot is pushed. An
  exception of the validator leaves the first two updates behind.
\<close>

definition assignColor :: "int \<Rightarrow> TheoremEngine \<Rightarrow> string \<Rightarrow> int \<Rightarrow> (error + unit) \<times> TheoremEngine" where
  "assignColor now e node ci =
     (let cur = (case currentColoring e of None \<Rightarrow> emptyColoring defaultPalette | Some c \<Rightarrow> c);
          asg = AList.update node ci (assignments cur);
          used = remdups (map snd asg);
          cur1 = cur\<lparr>assignments := asg, chromatic := int (length used)\<rparr>;
          e1 = e\<lparr>currentColoring := Some cur1\<rparr>
      in case validateColoring e1 None of
           Inl err \<Rightarrow> (Inl err, e1)
         | Inr v \<Rightarrow>
            (let cur2 = cur1\<lparr>valid := v\<rparr> in
             (Inr (),
              e1\<lparr>currentColoring := Some cur2,
                 stateManager := pushState (stateManager e1)
                   \<lparr>coloring = cur2, timestamp = now, action = ColoredNode node ci\<rparr>\<rparr>)))"

definition undo :: "TheoremEngine \<Rightarrow> ColorAssignment option \<times> TheoremEngine" where
  "undo e =
     (case history_undo (stateManager e) of
        (Some previousState, h) \<Rightarrow>
          (Some (coloring previousState),
           e\<lparr>stateManager := h, currentColoring := Some (coloring previousState)\<rparr>)
      | (None, h) \<Rightarrow> (None, e\<lparr>stateManager := h\<rparr>))"

definition redo :: "TheoremEngine \<Rightarrow> ColorAssignment option \<times> TheoremEngine" where
  "redo e =
     (case history_redo (stateManager e) of
        (Some nextState, h) \<Rightarrow>
          (Some (coloring nextState),
           e\<lparr>stateManager := h, currentColoring := Some (coloring nextState)\<rparr>)
      | (None, h) \<Rightarrow> (None, e\<lparr>stateManager := h\<rparr>))"

definition reset :: "int \<Rightarrow> TheoremEngine \<Rightarrow> TheoremEngine" where
  "reset now e =
     (let c = emptyColoring defaultPalette in
      e\<lparr>currentColoring := Some c,
        stateManager := pushState (clear (stateManager e))
          \<lparr>coloring = c, timestamp = now, action = ResetToUncolored\<rparr>\<rparr>)"

section \<open>Predicates of the properties\<close>

text \<open>
  The invariant of a history of capacity \<open>c\<close>: never more than \<open>c\<close> snapshots, the
  cursor on the stack or at \<open>-1\<close>. \<open>lastn c xs\<close> is the last \<open>c\<close> entries of \<open>xs\<close>.
\<close>

definition history_inv :: "int \<Rightarrow> 'a HistoryManager \<Rightarrow> bool" where
  "history_inv c h \<longleftrightarrow>
     maxSteps h = c \<and> int (length (stack h)) \<le> c \<and> - 1 \<le> index h \<and> index h < int (length (stack h))"

definition lastn :: "nat \<Rightarrow> 'a list \<Rightarrow> 'a list" where
  "lastn c xs = drop (length xs - c) xs"

text \<open>
  A conflict of an assignment: the positions \<open>i\<close> and \<open>j\<close> are adjacent and both nodes
  are mapped, to the same color index.
\<close>

definition conflict :: "Graph \<Rightarrow> (string \<times> int) list \<Rightarrow> nat \<Rightarrow> nat \<Rightarrow> bool" where
  "conflict g asg i j \<longleftrightarrow>
     adjacency g ! i ! j = 1 \<and>
     (\<exists>c. map_of asg (nodes g ! i) = Some c \<and> map_of asg (nodes g ! j) = Some c)"

text \<open>
  The colors already used around a vertex: those of its colored neighbours. The
  saturation degree of the spec is the number of these colors, the raw degree the row
  sum. \<open>smallestFree used c\<close>: \<open>c\<close> is the smallest color index not in \<open>used\<close>.
\<close>

definition neighbourColors :: "Graph \<Rightarrow> int list \<Rightarrow> nat \<Rightarrow> int set" where
  "neighbourColors g colors v =
     {colors ! j | j. j < length (nodes g) \<and> adjacency g ! v ! j = 1 \<and> colors ! j \<noteq> - 1}"

definition saturation :: "Graph \<Rightarrow> int list \<Rightarrow> nat \<Rightarrow> nat" where
  "saturation g colors v = card (neighbourColors g colors v)"

definition rawDegree :: "Graph \<Rightarrow> nat \<Rightarrow> int" where
  "rawDegree g v = sum_list (adjacency g ! v)"

definition smallestFree :: "int set \<Rightarrow> int \<Rightarrow> bool" where
  "smallestFree used c \<longleftrightarrow> 0 \<le> c \<and> c \<notin> used \<and> (\<forall>c'. 0 \<le> c' \<and> c' < c \<longrightarrow> c' \<in> used)"

text \<open>
  DSATUR's order of preference among uncolored vertices: \<open>v\<close> comes before \<open>u\<close> when it
  has the higher saturation degree, or the same and the higher raw degree, or both the
  same and the lower (or the same) position.
\<close>

definition preferred :: "Graph \<Rightarrow> int list \<Rightarrow> nat \<Rightarrow> nat \<Rightarrow> bool" where
  "preferred g colors v u \<longleftrightarrow>
     saturation g colors u < saturation g colors v \<or>
     (saturation g colors u = saturation g colors v \<and>
        (rawDegree g u < rawDegree g v \<or> (rawDegree g u = rawDegree g v \<and> v \<le> u)))"

text \<open>The state of the scan after the positions below \<open>k\<close>.\<close>

definition scanned :: "Graph \<Rightarrow> int list \<Rightarrow> nat \<Rightarrow> int \<times> int \<times> nat option \<Rightarrow> bool" where
  "scanned g colors k st \<longleftrightarrow>
     (case st of
        (maxSat, maxDeg, None) \<Rightarrow> maxSat = - 1 \<and> (\<forall>u < k. colors ! u \<noteq> - 1)
      | (maxSat, maxDeg, Some v) \<Rightarrow>
          v < k \<and> colors ! v = - 1 \<and> maxSat = int (saturation g colors v) \<and>
          maxDeg = rawDegree g v \<and> (\<forall>u < k. colors ! u = - 1 \<longrightarrow> preferred g colors v u))"

text \<open>
  The run of Greedy in the spec's words: \<open>greedy_run g maxColors colors0 k colors\<close> says
  that \<open>colors\<close> is what \<open>colors0\<close> has become once the nodes at the positions below \<open>k\<close>
  were processed in input order, a colored node being left as it is and an uncolored
  one receiving the smallest color index below \<open>maxColors\<close> that no colored neighbour
  has.
\<close>

inductive greedy_run :: "Graph \<Rightarrow> int \<Rightarrow> int list \<Rightarrow> nat \<Rightarrow> int list \<Rightarrow> bool"
  for g :: Graph and maxColors :: int and colors0 :: "int list" where
  run_start: "greedy_run g maxColors colors0 0 colors0"
| run_keep: "greedy_run g maxColors colors0 k colors \<Longrightarrow> k < length (nodes g) \<Longrightarrow>
     colors ! k \<noteq> - 1 \<Longrightarrow> greedy_run g maxColors colors0 (Suc k) colors"
| run_color: "greedy_run g maxColors colors0 k colors \<Longrightarrow> k < length (nodes g) \<Longrightarrow>
     colors ! k = - 1 \<Longrightarrow> smallestFree (neighbourColors g colors k) c \<Longrightarrow> c < maxColors \<Longrightarrow>
     greedy_run g maxColors colors0 (Suc k) (colors[k := c])"

text \<open>A node at which a run is stuck: uncolored, every color index below \<open>maxColors\<close> taken.\<close>

definition stuck :: "Graph \<Rightarrow> int \<Rightarrow> int list \<Rightarrow> nat \<Rightarrow> bool" where
  "stuck g maxColors colors k \<longleftrightarrow>
     k < length (nodes g) \<and> colors ! k = - 1 \<and>
     (\<forall>c. 0 \<le> c \<and> c < maxColors \<longrightarrow> c \<in> neighbourColors g colors k)"


section \<open>The adjacency matrix built on load\<close>

lemma foldl_upd_map_of:
  "foldl (\<lambda>m (k, i). m(k \<mapsto> i)) m0 ps = m0 ++ map_of (rev ps)"
  by (induction ps arbitrary: m0) (auto simp: map_add_def fun_eq_iff split: option.splits)

lemma nodeIndexMap_eq: "nodeIndexMap ids = map_of (rev (zip ids [0..<length ids]))"
  by (simp add: nodeIndexMap_def foldl_upd_map_of)

lemma nodeIndexMap_SomeD:
  "nodeIndexMap ids k = Some i \<Longrightarrow> i < length ids \<and> ids ! i = k"
  by (auto simp: nodeIndexMap_eq in_set_zip dest!: map_of_SomeD)

lemma nodeIndexMap_None: "nodeIndexMap ids k = None \<longleftrightarrow> k \<notin> set ids"
proof -
  have "fst ` set (zip ids [0..<length ids]) = set ids"
    by (metis length_upt diff_zero map_fst_zip set_map)
  then show ?thesis
    by (simp add: nodeIndexMap_eq map_of_eq_None_iff)
qed

lemma nodeIndexMap_distinct:
  assumes "distinct ids" "i < length ids"
  shows "nodeIndexMap ids (ids ! i) = Some i"
proof -
  obtain j where j: "nodeIndexMap ids (ids ! i) = Some j"
    using assms(2) nodeIndexMap_None [of ids "ids ! i"] by auto
  then have "j < length ids" "ids ! j = ids ! i"
    using nodeIndexMap_SomeD by blast+
  with assms have "j = i" by (simp add: nth_eq_iff_index_eq)
  with j show ?thesis by simp
qed

lemma square_setCell:
  assumes "square n m"
  shows "square n (setCell m i j)"
proof -
  have "length row = n" if "row \<in> set (m[i := (m ! i)[j := 1]])" for row
  proof -
    from that have "row = (m ! i)[j := 1] \<or> row \<in> set m"
      using set_update_subset_insert [of m i] by auto
    moreover have "length ((m ! i)[j := 1]) = n" if "i < length m"
      using that assms by (simp add: square_def)
    moreover have "m[i := (m ! i)[j := 1]] = m" if "\<not> i < length m"
      using that by (simp add: list_update_beyond)
    ultimately show ?thesis using assms that by (cases "i < length m") (auto simp: square_def)
  qed
  then show ?thesis using assms by (simp add: square_def setCell_def)
qed

lemma setCell_nth:
  "square n m \<Longrightarrow> i < n \<Longrightarrow> j < n \<Longrightarrow> a < n \<Longrightarrow> b < n \<Longrightarrow>
   setCell m i j ! a ! b = (if a = i \<and> b = j then 1 else m ! a ! b)"
  by (auto simp: square_def setCell_def nth_list_update)

lemma square_addEdge: "square n m \<Longrightarrow> square n (addEdge idx m e)"
  by (auto simp: addEdge_def square_setCell split: option.splits)

lemma square_foldl_addEdge: "square n m \<Longrightarrow> square n (foldl (addEdge idx) m es)"
  by (induction es arbitrary: m) (simp_all add: square_addEdge)

lemma if_chain: "(if P then (1::int) else if Q then 1 else x) = (if P \<or> Q then 1 else x)"
  by simp

lemma addEdge_nth:
  assumes "square n m" "a < n" "b < n" "\<And>k i. idx k = Some i \<Longrightarrow> i < n"
  shows "addEdge idx m e ! a ! b = (if connects idx e a b then 1 else m ! a ! b)"
proof (cases "idx (fst e)")
  case None
  then show ?thesis by (simp add: addEdge_def connects_def)
next
  case (Some i)
  note i = this
  show ?thesis
  proof (cases "idx (snd e)")
    case None
    then show ?thesis using i by (simp add: addEdge_def connects_def)
  next
    case (Some j)
    have "i < n" "j < n" using i Some assms(4) by blast+
    have sq: "square n (setCell m i j)" using assms(1) by (rule square_setCell)
    have e0: "addEdge idx m e = setCell (setCell m i j) j i"
      using i Some by (simp add: addEdge_def)
    have e1: "setCell (setCell m i j) j i ! a ! b =
        (if a = j \<and> b = i then 1 else setCell m i j ! a ! b)"
      by (rule setCell_nth [OF sq \<open>j < n\<close> \<open>i < n\<close> assms(2,3)])
    have e2: "setCell m i j ! a ! b = (if a = i \<and> b = j then 1 else m ! a ! b)"
      by (rule setCell_nth [OF assms(1) \<open>i < n\<close> \<open>j < n\<close> assms(2,3)])
    have e3: "(if a = j \<and> b = i then 1 else if a = i \<and> b = j then 1 else m ! a ! b) =
        (if (a = j \<and> b = i) \<or> (a = i \<and> b = j) then 1 else m ! a ! b)"
      by (rule if_chain)
    have e4: "connects idx e a b \<longleftrightarrow> (a = j \<and> b = i) \<or> (a = i \<and> b = j)"
      unfolding connects_def i Some by auto
    show ?thesis by (simp only: e0 e1 e2 e3 e4)
  qed
qed

lemma foldl_addEdge_nth:
  assumes "square n m" "a < n" "b < n" "\<And>k i. idx k = Some i \<Longrightarrow> i < n"
  shows "foldl (addEdge idx) m es ! a ! b =
     (if \<exists>e \<in> set es. connects idx e a b then 1 else m ! a ! b)"
  using assms(1)
proof (induction es arbitrary: m)
  case Nil
  then show ?case by simp
next
  case (Cons e es)
  have sq: "square n (addEdge idx m e)" using Cons.prems by (rule square_addEdge)
  show ?case
    using Cons.IH [OF sq] addEdge_nth [OF Cons.prems assms(2,3,4), where e = e]
    by auto
qed

lemma square_zero: "square n (replicate n (replicate n 0))"
  by (simp add: square_def)

lemma buildAdjacencyMatrix_square: "square (length ids) (buildAdjacencyMatrix ids es)"
  by (simp add: buildAdjacencyMatrix_def Let_def square_foldl_addEdge square_zero)

lemma buildAdjacencyMatrix_nth:
  assumes "a < length ids" "b < length ids"
  shows "buildAdjacencyMatrix ids es ! a ! b =
     (if \<exists>e \<in> set es. connects (nodeIndexMap ids) e a b then 1 else 0)"
proof -
  have "\<And>k i. nodeIndexMap ids k = Some i \<Longrightarrow> i < length ids"
    using nodeIndexMap_SomeD by blast
  from foldl_addEdge_nth [OF square_zero assms this, where es = es]
  show ?thesis using assms by (simp add: buildAdjacencyMatrix_def Let_def)
qed



text \<open>With distinct node ids, the positions an edge joins are those of its two ends.\<close>

lemma nodeIndexMap_Some_iff:
  assumes "distinct ids" "a < length ids"
  shows "nodeIndexMap ids k = Some a \<longleftrightarrow> k = ids ! a"
  using assms nodeIndexMap_distinct [OF assms] nodeIndexMap_SomeD [of ids k a] by auto

lemma buildAdjacencyMatrix_distinct:
  assumes "distinct ids" "i < length ids" "j < length ids"
  shows "buildAdjacencyMatrix ids es ! i ! j = 1 \<longleftrightarrow>
     (\<exists>e \<in> set es. (fst e = ids ! i \<and> snd e = ids ! j) \<or> (fst e = ids ! j \<and> snd e = ids ! i))"
  using assms
  by (simp add: buildAdjacencyMatrix_nth connects_def nodeIndexMap_Some_iff)

lemma buildAdjacencyMatrix_symmetric: "symmetric (buildAdjacencyMatrix ids es)"
proof -
  have "length (buildAdjacencyMatrix ids es) = length ids"
    using buildAdjacencyMatrix_square [of ids es] by (simp add: square_def)
  moreover have "connects (nodeIndexMap ids) e i j = connects (nodeIndexMap ids) e j i" for e i j
    by (auto simp: connects_def)
  ultimately show ?thesis
    by (simp add: symmetric_def buildAdjacencyMatrix_nth)
qed

text \<open>
  A graph loaded without a matrix of its own gets the one the engine builds, and is an
  AdjacencyModel: square and symmetric.
\<close>

lemma loadGraph_model:
  assumes "input_adjacency graph = None"
  shows "currentGraph (loadGraph e graph) = Some (preprocessGraph graph) \<and>
         wf_graph (preprocessGraph graph) \<and> symmetric (adjacency (preprocessGraph graph))"
  using assms buildAdjacencyMatrix_square [of "input_nodes graph" "input_edges graph"]
    buildAdjacencyMatrix_symmetric [of "input_nodes graph" "input_edges graph"]
  by (simp add: loadGraph_def preprocessGraph_def wf_graph_def)




section \<open>The bounded history\<close>

lemma slice0_nonneg: "0 \<le> e \<Longrightarrow> slice0 xs e = take (nat e) xs"
  by (simp add: slice0_def)

lemma tl_lastn: "length ys = Suc c \<Longrightarrow> tl ys = lastn c ys"
  by (simp add: lastn_def drop_Suc)

lemma short_lastn: "length ys \<le> c \<Longrightarrow> lastn c ys = ys"
  by (simp add: lastn_def)

lemma push_stack:
  assumes "history_inv c h" "1 \<le> c"
  shows "stack (push h s) = lastn (nat c) (take (nat (index h + 1)) (stack h) @ [s])"
proof -
  let ?s1 = "take (nat (index h + 1)) (stack h) @ [s]"
  have len: "int (length ?s1) \<le> c + 1" using assms by (auto simp: history_inv_def)
  have ne: "?s1 \<noteq> []" by simp
  have "(if int (length ?s1) > c then tl ?s1 else ?s1) = lastn (nat c) ?s1"
  proof (cases "int (length ?s1) > c")
    case True
    with len assms(2) have "length ?s1 = Suc (nat c)" by linarith
    then have "tl ?s1 = lastn (nat c) ?s1" by (rule tl_lastn)
    then show ?thesis using True by (simp only: if_True)
  next
    case False
    with assms(2) have "length ?s1 \<le> nat c" by linarith
    then have "lastn (nat c) ?s1 = ?s1" by (rule short_lastn)
    then show ?thesis using False by (simp only: if_False)
  qed
  then show ?thesis
    using assms by (simp add: push_def Let_def slice0_nonneg history_inv_def)
qed

lemma push_index: "index (push h s) = int (length (stack (push h s))) - 1"
  by (simp add: push_def Let_def)

lemma push_maxSteps: "maxSteps (push h s) = maxSteps h"
  by (simp add: push_def Let_def)

lemma length_lastn: "length (lastn c xs) = min c (length xs)"
  by (auto simp: lastn_def)

lemma push_inv:
  assumes "history_inv c h" "1 \<le> c"
  shows "history_inv c (push h s)"
proof -
  have "stack (push h s) \<noteq> []"
    using assms by (simp add: push_stack [OF assms] lastn_def)
  then show ?thesis
    using assms
    by (auto simp: history_inv_def push_index push_maxSteps push_stack [OF assms] length_lastn
        simp del: length_append)
qed

lemma undo_inv: "history_inv c h \<Longrightarrow> history_inv c (snd (history_undo h))"
  by (auto simp: history_inv_def history_undo_def Let_def)

lemma redo_inv: "history_inv c h \<Longrightarrow> history_inv c (snd (history_redo h))"
  by (auto simp: history_inv_def history_redo_def Let_def)

lemma reachable_inv: "reachable c h \<Longrightarrow> 1 \<le> c \<Longrightarrow> history_inv c h"
proof (induction rule: reachable.induct)
  case reachable_new
  then show ?case by (simp add: history_inv_def newHistoryManager_def)
next
  case (reachable_push h s)
  then show ?case by (simp add: push_inv)
next
  case (reachable_undo h)
  then show ?case by (simp add: undo_inv)
next
  case (reachable_redo h)
  then show ?case by (simp add: redo_inv)
qed

lemma lastn_lastn_append: "lastn c (lastn c ys @ xs) = lastn c (ys @ xs)"
  by (cases "length ys \<le> c") (auto simp: lastn_def add.commute)

lemma pushes_at_tail:
  assumes "1 \<le> c"
  shows "history_inv c h \<Longrightarrow> index h = int (length (stack h)) - 1 \<Longrightarrow>
    stack (foldl push h xs) = lastn (nat c) (stack h @ xs) \<and>
    index (foldl push h xs) = int (length (stack (foldl push h xs))) - 1"
proof (induction xs arbitrary: h)
  case Nil
  then have "int (length (stack h)) \<le> c" by (simp add: history_inv_def)
  then have "length (stack h) \<le> nat c" by linarith
  with Nil show ?case by (simp add: short_lastn)
next
  case (Cons x xs)
  have inv: "history_inv c (push h x)" using Cons.prems(1) assms by (rule push_inv)
  have st: "stack (push h x) = lastn (nat c) (stack h @ [x])"
    using push_stack [OF Cons.prems(1) assms, of x] Cons.prems(2) by simp
  from Cons.IH [OF inv push_index] st show ?case
    by (simp add: lastn_lastn_append)
qed

lemma pushes_stack:
  assumes "history_inv c h" "1 \<le> c" "xs \<noteq> []"
  shows "stack (foldl push h xs) = lastn (nat c) (take (nat (index h + 1)) (stack h) @ xs) \<and>
    index (foldl push h xs) = int (length (stack (foldl push h xs))) - 1"
proof -
  from assms(3) obtain x xs' where xs: "xs = x # xs'" by (cases xs) auto
  have inv: "history_inv c (push h x)" using assms(1,2) by (rule push_inv)
  from pushes_at_tail [OF assms(2) inv push_index, of xs']
  show ?thesis
    by (simp add: xs push_stack [OF assms(1,2)] lastn_lastn_append)
qed

lemma lastn_append_long: "c \<le> length xs \<Longrightarrow> lastn c (ys @ xs) = lastn c xs"
  by (simp add: lastn_def)

text \<open>
  Claim C6. A manager of capacity \<open>c \<ge> 1\<close>, in any state its operations can reach,
  after \<open>k > c\<close> pushes in a row holds exactly the last \<open>c\<close> pushed snapshots, in push
  order (the list of pushes without its first \<open>k - c\<close> entries), and the cursor is at
  the last position.
\<close>

theorem push_beyond_capacity:
  assumes "reachable c h" "1 \<le> c" "int (length xs) > c"
  shows "stack (foldl push h xs) = drop (length xs - nat c) xs \<and>
         length (stack (foldl push h xs)) = nat c \<and>
         index (foldl push h xs) = c - 1"
proof -
  have inv: "history_inv c h" using assms(1,2) by (rule reachable_inv)
  have ne: "xs \<noteq> []" using assms(2,3) by auto
  have long: "nat c \<le> length xs" using assms(3) by linarith
  from pushes_stack [OF inv assms(2) ne] lastn_append_long [OF long]
  have st: "stack (foldl push h xs) = lastn (nat c) xs"
    and ix: "index (foldl push h xs) = int (length (stack (foldl push h xs))) - 1"
    by simp_all
  have len: "length (stack (foldl push h xs)) = nat c"
    using long by (simp add: st length_lastn)
  from st len ix assms(2) show ?thesis by (simp add: lastn_def)
qed

theorem push_beyond_capacity_witness:
  "reachable 3 (snd (history_undo (push (push (newHistoryManager 3) (10::nat)) 11))) \<and>
   stack (foldl push (snd (history_undo (push (push (newHistoryManager 3) (10::nat)) 11)))
            [1, 2, 3, 4, 5]) = [3, 4, 5] \<and>
   index (foldl push (snd (history_undo (push (push (newHistoryManager 3) (10::nat)) 11)))
            [1, 2, 3, 4, 5]) = 2"
proof -
  let ?h = "snd (history_undo (push (push (newHistoryManager 3) (10::nat)) 11))"
  have r: "reachable 3 ?h"
    by (intro reachable_undo reachable_push reachable_new)
  have "int (length [1, 2, 3, 4, 5::nat]) > 3" by simp
  from push_beyond_capacity [OF r _ this] r show ?thesis by simp
qed

section \<open>The validator\<close>

lemma validate_inner_result:
  assumes "i < length adj"
  shows "validate_inner adj ns asg i js =
     Inr (\<forall>j \<in> set js. \<not> (elemAt (adj ! i) j = Some 1 \<and>
            map_of asg (ns ! i) = map_of asg (ns ! j) \<and> map_of asg (ns ! i) \<noteq> None))"
  using assms by (induction js) auto

lemma validate_outer_result:
  assumes "\<forall>i \<in> set is. i < length adj"
  shows "validate_outer adj ns asg is =
     Inr (\<forall>i \<in> set is. \<forall>j \<in> set [i + 1..<length ns].
            \<not> (elemAt (adj ! i) j = Some 1 \<and>
               map_of asg (ns ! i) = map_of asg (ns ! j) \<and> map_of asg (ns ! i) \<noteq> None))"
  using assms
proof (induction "is")
  case Nil
  then show ?case by simp
next
  case (Cons i "is")
  then have i: "i < length adj" by simp
  show ?case
    using Cons by (simp add: validate_inner_result [OF i])
qed

lemma square_cell:
  assumes "square n m" "i < n" "j < n"
  shows "elemAt (m ! i) j = Some 1 \<longleftrightarrow> m ! i ! j = 1"
proof -
  have "m ! i \<in> set m" using assms by (simp add: square_def)
  then have "length (m ! i) = n" using assms by (auto simp: square_def)
  then show ?thesis using assms by (simp add: elemAt_def)
qed

lemma validateColoring_upper:
  assumes "currentGraph e = Some g" "wf_graph g"
  shows "validateColoring e (Some c) =
     Inr (\<not> (\<exists>i j. i < j \<and> j < length (nodes g) \<and> conflict g (assignments c) i j))"
proof -
  let ?n = "length (nodes g)"
  have sq: "square ?n (adjacency g)" using assms(2) by (simp add: wf_graph_def)
  then have len: "length (adjacency g) = ?n" by (simp add: square_def)
  have rows: "\<forall>i \<in> set [0..<?n]. i < length (adjacency g)" by (simp add: len)
  have cell: "elemAt (adjacency g ! i) j = Some 1 \<longleftrightarrow> adjacency g ! i ! j = 1"
    if "i < ?n" "j < ?n" for i j
    using sq that by (rule square_cell)
  have "(\<forall>i \<in> set [0..<?n]. \<forall>j \<in> set [i + 1..<?n].
            \<not> (elemAt (adjacency g ! i) j = Some 1 \<and>
               map_of (assignments c) (nodes g ! i) = map_of (assignments c) (nodes g ! j) \<and>
               map_of (assignments c) (nodes g ! i) \<noteq> None))
        \<longleftrightarrow> \<not> (\<exists>i j. i < j \<and> j < ?n \<and> conflict g (assignments c) i j)"
    (is "?L \<longleftrightarrow> \<not> ?R")
  proof
    assume L: ?L
    show "\<not> ?R"
    proof
      assume ?R
      then obtain i j where ij: "i < j" "j < ?n" "conflict g (assignments c) i j" by blast
      then have "i < ?n" by simp
      from ij(3) obtain col where col: "adjacency g ! i ! j = 1"
        "map_of (assignments c) (nodes g ! i) = Some col"
        "map_of (assignments c) (nodes g ! j) = Some col"
        by (auto simp: conflict_def)
      have "i \<in> set [0..<?n]" "j \<in> set [i + 1..<?n]" using ij(1,2) by auto
      with L have "\<not> (elemAt (adjacency g ! i) j = Some 1 \<and>
               map_of (assignments c) (nodes g ! i) = map_of (assignments c) (nodes g ! j) \<and>
               map_of (assignments c) (nodes g ! i) \<noteq> None)"
        by blast
      with cell [OF \<open>i < ?n\<close> ij(2)] col show False by simp
    qed
  next
    assume R: "\<not> ?R"
    show ?L
    proof (intro ballI notI)
      fix i j
      assume i: "i \<in> set [0..<?n]" and j: "j \<in> set [i + 1..<?n]"
        and bad: "elemAt (adjacency g ! i) j = Some 1 \<and>
               map_of (assignments c) (nodes g ! i) = map_of (assignments c) (nodes g ! j) \<and>
               map_of (assignments c) (nodes g ! i) \<noteq> None"
      from i j have lt: "i < ?n" "j < ?n" "i < j" by auto
      from bad obtain col where col: "map_of (assignments c) (nodes g ! i) = Some col"
        by blast
      with bad have "map_of (assignments c) (nodes g ! j) = Some col" by simp
      with col bad cell [OF lt(1,2)] have "conflict g (assignments c) i j"
        unfolding conflict_def by blast
      with lt R show False by blast
    qed
  qed
  then show ?thesis
    using assms(1) validate_outer_result [OF rows, of "nodes g" "assignments c"]
    by (simp add: validateColoring_def)
qed

lemma conflict_sym:
  assumes "symmetric (adjacency g)" "i < length (adjacency g)" "j < length (adjacency g)"
  shows "conflict g asg i j \<longleftrightarrow> conflict g asg j i"
  using assms by (auto simp: conflict_def symmetric_def)

text \<open>
  Claim C1. With a graph loaded (its matrix square, as the AdjacencyModel is) the
  validator applied to an assignment returns false exactly when some pair of positions
  \<open>i < j\<close> is a conflict: adjacent, both nodes mapped, same color index. For a
  symmetric matrix, as every matrix that the engine builds is, these are the pairs of
  distinct positions, in either order. A pair with an unmapped end is no conflict and
  so never makes the result false.
\<close>

theorem validateColoring_conflicts:
  assumes "currentGraph e = Some g" "wf_graph g"
  shows "validateColoring e (Some c) =
           Inr (\<not> (\<exists>i j. i < j \<and> j < length (nodes g) \<and> conflict g (assignments c) i j)) \<and>
         (symmetric (adjacency g) \<longrightarrow>
            validateColoring e (Some c) =
              Inr (\<not> (\<exists>i < length (nodes g). \<exists>j < length (nodes g).
                         i \<noteq> j \<and> conflict g (assignments c) i j)))"
proof -
  let ?n = "length (nodes g)"
  have up: "validateColoring e (Some c) =
      Inr (\<not> (\<exists>i j. i < j \<and> j < ?n \<and> conflict g (assignments c) i j))"
    using assms by (rule validateColoring_upper)
  have len: "length (adjacency g) = ?n" using assms(2) by (simp add: wf_graph_def square_def)
  have "(\<exists>i j. i < j \<and> j < ?n \<and> conflict g (assignments c) i j) \<longleftrightarrow>
        (\<exists>i < ?n. \<exists>j < ?n. i \<noteq> j \<and> conflict g (assignments c) i j)"
    (is "?A \<longleftrightarrow> ?B") if sym: "symmetric (adjacency g)"
  proof
    assume ?A
    then obtain i j where "i < j" "j < ?n" "conflict g (assignments c) i j" by blast
    then have "i < ?n \<and> j < ?n \<and> i \<noteq> j \<and> conflict g (assignments c) i j" by simp
    then show ?B by blast
  next
    assume ?B
    then obtain i j where ij: "i < ?n" "j < ?n" "i \<noteq> j" "conflict g (assignments c) i j"
      by blast
    show ?A
    proof (cases "i < j")
      case True
      with ij show ?thesis by blast
    next
      case False
      with ij(3) have "j < i" by simp
      moreover have "conflict g (assignments c) j i"
        using conflict_sym [OF sym, of i j] ij len by simp
      ultimately show ?thesis using ij(1) by blast
    qed
  qed
  then have "symmetric (adjacency g) \<longrightarrow>
            validateColoring e (Some c) =
              Inr (\<not> (\<exists>i < ?n. \<exists>j < ?n. i \<noteq> j \<and> conflict g (assignments c) i j))"
    using up by (simp only:) blast
  with up show ?thesis by (rule conjI)
qed

theorem validateColoring_conflicts_witness:
  "wf_graph (preprocessGraph
       \<lparr>input_nodes = [''a'', ''b'', ''c''], input_edges = [(''a'', ''b''), (''b'', ''c'')],
        input_adjacency = None\<rparr>) \<and>
   symmetric (adjacency (preprocessGraph
       \<lparr>input_nodes = [''a'', ''b'', ''c''], input_edges = [(''a'', ''b''), (''b'', ''c'')],
        input_adjacency = None\<rparr>)) \<and>
   conflict (preprocessGraph
       \<lparr>input_nodes = [''a'', ''b'', ''c''], input_edges = [(''a'', ''b''), (''b'', ''c'')],
        input_adjacency = None\<rparr>)
     [(''b'', 2), (''c'', 2)] 1 2 \<and>
   validateColoring (loadGraph (newTheoremEngine None)
       \<lparr>input_nodes = [''a'', ''b'', ''c''], input_edges = [(''a'', ''b''), (''b'', ''c'')],
        input_adjacency = None\<rparr>)
     (Some \<lparr>assignments = [(''b'', 2), (''c'', 2)], palette = [], chromatic = 1,
            valid = True, metadata = None\<rparr>) = Inr False"
proof -
  let ?gi = "\<lparr>input_nodes = [''a'', ''b'', ''c''], input_edges = [(''a'', ''b''), (''b'', ''c'')],
        input_adjacency = None\<rparr>"
  let ?g = "preprocessGraph ?gi"
  let ?e = "loadGraph (newTheoremEngine None) ?gi"
  let ?c = "\<lparr>assignments = [(''b'', 2), (''c'', 2)], palette = [], chromatic = 1,
            valid = True, metadata = None\<rparr>"
  have "input_adjacency ?gi = None" by simp
  from loadGraph_model [OF this, of "newTheoremEngine None"]
  have g: "currentGraph ?e = Some ?g" and wf: "wf_graph ?g" and sym: "symmetric (adjacency ?g)"
    by blast+
  have adj: "adjacency ?g = [[0, 1, 0], [1, 0, 1], [0, 1, 0]]" by code_simp
  have ns: "nodes ?g = [''a'', ''b'', ''c'']" by (simp add: preprocessGraph_def)
  have cf: "conflict ?g (assignments ?c) 1 2" by (simp add: conflict_def adj ns)
  then have "(1::nat) < length (nodes ?g) \<and> (2::nat) < length (nodes ?g) \<and> (1::nat) \<noteq> 2 \<and>
      conflict ?g (assignments ?c) 1 2"
    by (simp add: ns)
  then have ex: "\<exists>i < length (nodes ?g). \<exists>j < length (nodes ?g). i \<noteq> j \<and> conflict ?g (assignments ?c) i j"
    by blast
  from validateColoring_conflicts [OF g wf, of ?c, THEN conjunct2, rule_format, OF sym] ex
  have "validateColoring ?e (Some ?c) = Inr False" by (simp only: simp_thms)
  with wf sym cf show ?thesis by simp
qed

section \<open>The precondition of computeColoring\<close>

lemma usedColors_error: "usedColors v colors adj = Inl x \<Longrightarrow> x = TypeError"
  by (simp add: usedColors_def split: if_splits)

lemma getAvailableColors_error: "getAvailableColors v colors adj m = Inl x \<Longrightarrow> x = TypeError"
  by (auto simp: getAvailableColors_def split: sum.splits dest: usedColors_error)

lemma getSaturationDegree_error: "getSaturationDegree v colors adj = Inl x \<Longrightarrow> x = TypeError"
  by (auto simp: getSaturationDegree_def split: sum.splits dest: usedColors_error)

lemma collect_rowDegree_error: "collect (rowDegree adj) is = Inl x \<Longrightarrow> x = TypeError"
  by (induction "is") (auto simp: rowDegree_def split: sum.splits if_splits)

lemma greedy_loop_error: "greedy_loop g m i colors = Inl x \<Longrightarrow> x = TypeError"
proof (induction g m i colors rule: greedy_loop.induct)
  case (1 g m i colors)
  from "1.prems" show ?case
    by (subst (asm) greedy_loop.simps)
      (auto split: if_splits sum.splits list.splits
        dest: getAvailableColors_error "1.IH"(1) "1.IH"(2))
qed

lemma welshPowell_loop_error: "welshPowell_loop g m vs colors = Inl x \<Longrightarrow> x = TypeError"
  by (induction vs arbitrary: colors)
    (auto split: if_splits sum.splits list.splits dest: getAvailableColors_error)

lemma selectVertex_error: "selectVertex adj colors degree is st = Inl x \<Longrightarrow> x = TypeError"
  by (induction adj colors degree "is" st rule: selectVertex.induct)
    (auto split: if_splits sum.splits dest: getSaturationDegree_error)

lemma dsatur_step_error: "dsatur_step g m degree colors = Inl x \<Longrightarrow> x = TypeError"
  by (auto simp: dsatur_step_def split: sum.splits prod.splits option.splits list.splits
      dest: selectVertex_error getAvailableColors_error)

lemma dsatur_loop_error: "dsatur_loop g m degree colored colors = Inl x \<Longrightarrow> x = TypeError"
proof (induction g m degree colored colors rule: dsatur_loop.induct)
  case (1 g m degree colored colors)
  from "1.prems" show ?case
    by (subst (asm) dsatur_loop.simps)
      (auto split: if_splits sum.splits step.splits dest: dsatur_step_error "1.IH")
qed

lemma greedy_compute_error: "greedy_compute g opts = Inl x \<Longrightarrow> x = TypeError"
  by (auto simp: greedy_compute_def Let_def split: sum.splits option.splits prod.splits
      dest: greedy_loop_error)

lemma welshPowell_compute_error: "welshPowell_compute g opts = Inl x \<Longrightarrow> x = TypeError"
  by (auto simp: welshPowell_compute_def Let_def split: sum.splits option.splits prod.splits
      dest: welshPowell_loop_error collect_rowDegree_error)

lemma dsatur_compute_error: "dsatur_compute g opts = Inl x \<Longrightarrow> x = TypeError"
  by (auto simp: dsatur_compute_def Let_def split: sum.splits option.splits prod.splits
      dest: dsatur_loop_error collect_rowDegree_error)

lemma selectAlgorithm_error:
  assumes "\<forall>g opts. backtracking g opts \<noteq> Inl NoGraphLoaded"
  shows "selectAlgorithm backtracking name g opts \<noteq> Inl NoGraphLoaded"
  using assms greedy_compute_error [of g opts NoGraphLoaded]
    welshPowell_compute_error [of g opts NoGraphLoaded]
    dsatur_compute_error [of g opts NoGraphLoaded]
  by (auto simp: selectAlgorithm_def)

text \<open>
  Claim C8. With no graph loaded, computeColoring raises the "No graph loaded" error
  at once and the engine (current coloring, history and all) is what it was. With a
  graph loaded the call never ends in that error, whatever the options, for any
  Backtracking implementation that does not raise it itself.
\<close>

theorem computeColoring_no_graph:
  "(currentGraph e = None \<longrightarrow> computeColoring backtracking now e opts = (Inl NoGraphLoaded, e)) \<and>
   (currentGraph e \<noteq> None \<longrightarrow> (\<forall>g opts. backtracking g opts \<noteq> Inl NoGraphLoaded) \<longrightarrow>
      fst (computeColoring backtracking now e opts) \<noteq> Inl NoGraphLoaded)"
proof (intro conjI impI)
  assume "currentGraph e = None"
  then show "computeColoring backtracking now e opts = (Inl NoGraphLoaded, e)"
    by (simp add: computeColoring_def)
next
  assume "currentGraph e \<noteq> None" and bt: "\<forall>g opts. backtracking g opts \<noteq> Inl NoGraphLoaded"
  then obtain g where g: "currentGraph e = Some g" by blast
  show "fst (computeColoring backtracking now e opts) \<noteq> Inl NoGraphLoaded"
    using selectAlgorithm_error [OF bt, of "opt_algorithm opts" g opts]
    by (auto simp: computeColoring_def g split: sum.splits)
qed

theorem computeColoring_no_graph_witness:
  "currentGraph (newTheoremEngine None) = None \<and>
   computeColoring greedy_compute 7 (newTheoremEngine None)
     \<lparr>opt_algorithm = Some ''dsatur'', opt_maxColors = None, opt_constraints = None\<rparr>
     = (Inl NoGraphLoaded, newTheoremEngine None) \<and>
   currentGraph (loadGraph (newTheoremEngine None)
     \<lparr>input_nodes = [''a''], input_edges = [], input_adjacency = None\<rparr>) \<noteq> None \<and>
   fst (computeColoring greedy_compute 7
     (loadGraph (newTheoremEngine None)
        \<lparr>input_nodes = [''a''], input_edges = [], input_adjacency = None\<rparr>)
     \<lparr>opt_algorithm = Some ''dsatur'', opt_maxColors = None, opt_constraints = None\<rparr>)
     \<noteq> Inl NoGraphLoaded"
proof -
  let ?e0 = "newTheoremEngine None"
  let ?e1 = "loadGraph ?e0 \<lparr>input_nodes = [''a''], input_edges = [], input_adjacency = None\<rparr>"
  let ?o = "\<lparr>opt_algorithm = Some ''dsatur'', opt_maxColors = None, opt_constraints = None\<rparr>"
  have n0: "currentGraph ?e0 = None" by (simp add: newTheoremEngine_def)
  have n1: "currentGraph ?e1 \<noteq> None" by (simp add: loadGraph_def)
  have bt: "\<forall>g opts. greedy_compute g opts \<noteq> Inl NoGraphLoaded"
    using greedy_compute_error by blast
  from computeColoring_no_graph [of ?e0 greedy_compute 7 ?o] n0
  have a: "computeColoring greedy_compute 7 ?e0 ?o = (Inl NoGraphLoaded, ?e0)" by blast
  from computeColoring_no_graph [of ?e1 greedy_compute 7 ?o] n1 bt
  have b: "fst (computeColoring greedy_compute 7 ?e1 ?o) \<noteq> Inl NoGraphLoaded" by blast
  from n0 a n1 b show ?thesis by blast
qed

section \<open>The engine and the algorithms at particular inputs\<close>

text \<open>
  Claim C10. Two adjacent nodes \<open>a\<close> and \<open>b\<close>, and one constraint that pins the color 0
  on an id \<open>zz\<close> that no node has. The constraint colors no node (the colors stay all
  \<open>-1\<close>), yet the counter of colored nodes starts at 1, the number of constraints with
  a color. The loop then runs once for two nodes: DSATUR returns an assignment that
  maps \<open>a\<close> only, with its valid flag true.
\<close>

theorem dsatur_unmatched_constraint:
  "initialColored [\<lparr>nodeId = ''zz'', colorIndex = Some 0, forbidden = None\<rparr>] = 1 \<and>
   applyConstraints [''a'', ''b''] [\<lparr>nodeId = ''zz'', colorIndex = Some 0, forbidden = None\<rparr>]
     [- 1, - 1] = [- 1, - 1] \<and>
   dsatur_compute
     \<lparr>nodes = [''a'', ''b''], edges = [(''a'', ''b'')], adjacency = [[0, 1], [1, 0]]\<rparr>
     \<lparr>opt_algorithm = Some ''dsatur'', opt_maxColors = None,
      opt_constraints = Some [\<lparr>nodeId = ''zz'', colorIndex = Some 0, forbidden = None\<rparr>]\<rparr>
   = Inr \<lparr>assignments = [(''a'', 0)], palette = [Hex ''#E63946''], chromatic = 1,
          valid = True, metadata = None\<rparr> \<and>
   map_of [(''a'', 0::int)] ''b'' = None"
  by code_simp

text \<open>
  Claim C2 at a failing input. One node \<open>a\<close> pinned to the color 2 by a constraint:
  Greedy returns the mapping \<open>a \<mapsto> 2\<close>, in which one color index is used, with
  \<^verbatim>\<open>chromatic\<close> 3.
\<close>

theorem greedy_chromatic_pinned:
  "greedy_compute
     \<lparr>nodes = [''a''], edges = [], adjacency = [[0]]\<rparr>
     \<lparr>opt_algorithm = None, opt_maxColors = None,
      opt_constraints = Some [\<lparr>nodeId = ''a'', colorIndex = Some 2, forbidden = None\<rparr>]\<rparr>
   = Inr \<lparr>assignments = [(''a'', 2)],
          palette = [Hex ''#E63946'', Hex ''#457B9D'', Hex ''#F1C40F''], chromatic = 3,
          valid = True, metadata = None\<rparr> \<and>
   card (snd ` set [(''a'', 2::int)]) = 1"
  by code_simp

section \<open>Available colors and saturation\<close>

lemma wf_graph_length: "wf_graph g \<Longrightarrow> length (adjacency g) = length (nodes g)"
  by (simp add: wf_graph_def square_def)

lemma wf_graph_cell:
  "wf_graph g \<Longrightarrow> i < length (nodes g) \<Longrightarrow> j < length (nodes g) \<Longrightarrow>
   elemAt (adjacency g ! i) j = Some 1 \<longleftrightarrow> adjacency g ! i ! j = 1"
  unfolding wf_graph_def by (rule square_cell)

lemma usedColors_wf:
  assumes "wf_graph g" "length colors = length (nodes g)" "v < length (nodes g)"
  shows "usedColors v colors (adjacency g) =
     Inr (map (\<lambda>i. Some (colors ! i))
            (filter (\<lambda>i. adjacency g ! v ! i = 1 \<and> colors ! i \<noteq> - 1) [0..<length (nodes g)]))"
proof -
  let ?n = "length (nodes g)"
  have len: "length (adjacency g) = ?n" using assms(1) by (rule wf_graph_length)
  have ne: "adjacency g \<noteq> []" using len assms(3) by auto
  have p: "(elemAt (adjacency g ! v) i = Some 1 \<and> elemAt colors i \<noteq> Some (- 1)) =
      (adjacency g ! v ! i = 1 \<and> colors ! i \<noteq> - 1)" if "i < ?n" for i
  proof -
    have c1: "elemAt (adjacency g ! v) i = Some 1 \<longleftrightarrow> adjacency g ! v ! i = 1"
      using assms(1,3) that by (rule wf_graph_cell)
    have c2: "elemAt colors i = Some (colors ! i)"
      using that assms(2) by (simp add: elemAt_def)
    show ?thesis by (simp only: c1 c2) simp
  qed
  have f: "filter (\<lambda>i. elemAt (adjacency g ! v) i = Some 1 \<and> elemAt colors i \<noteq> Some (- 1)) [0..<?n]
      = filter (\<lambda>i. adjacency g ! v ! i = 1 \<and> colors ! i \<noteq> - 1) [0..<?n]"
    by (rule filter_cong) (simp_all add: p)
  have m: "map (elemAt colors) (filter Q [0..<?n]) = map (\<lambda>i. Some (colors ! i)) (filter Q [0..<?n])"
    for Q
    by (rule map_cong) (simp_all add: elemAt_def assms(2))
  show ?thesis
    using ne assms(3) by (simp add: usedColors_def len f m)
qed

lemma set_usedColors:
  "set (map (\<lambda>i. Some (colors ! i))
          (filter (\<lambda>i. adjacency g ! v ! i = 1 \<and> colors ! i \<noteq> - 1) [0..<length (nodes g)]))
   = Some ` neighbourColors g colors v"
  by (auto simp: neighbourColors_def)

lemma getSaturationDegree_wf:
  assumes "wf_graph g" "length colors = length (nodes g)" "v < length (nodes g)"
  shows "getSaturationDegree v colors (adjacency g) = Inr (int (saturation g colors v))"
proof -
  let ?used = "map (\<lambda>i. Some (colors ! i))
          (filter (\<lambda>i. adjacency g ! v ! i = 1 \<and> colors ! i \<noteq> - 1) [0..<length (nodes g)])"
  have "length (remdups ?used) = card (set ?used)" by (simp add: length_remdups_card_conv)
  also have "\<dots> = card (Some ` neighbourColors g colors v)" by (simp only: set_usedColors)
  also have "\<dots> = card (neighbourColors g colors v)" by (simp add: card_image)
  finally show ?thesis
    by (simp add: getSaturationDegree_def usedColors_wf [OF assms] saturation_def)
qed

lemma getAvailableColors_wf:
  assumes "wf_graph g" "length colors = length (nodes g)" "v < length (nodes g)"
  shows "getAvailableColors v colors (adjacency g) maxColors =
     Inr (filter (\<lambda>c. c \<notin> neighbourColors g colors v) [0..maxColors - 1])"
proof -
  have "(Some c \<notin> Some ` neighbourColors g colors v) = (c \<notin> neighbourColors g colors v)" for c
    by auto
  then show ?thesis
    by (simp add: getAvailableColors_def usedColors_wf [OF assms] set_usedColors del: set_map set_filter)
qed

lemma first_available:
  assumes "filter (\<lambda>c. c \<notin> used) [0..m] = c # rest"
  shows "smallestFree used c \<and> c \<le> m"
proof -
  from assms obtain us vs where split: "[0..m] = us @ c # vs"
    and before: "\<forall>u \<in> set us. \<not> u \<notin> used" and free: "c \<notin> used"
    by (auto simp: filter_eq_Cons_iff)
  have "c \<in> set [0..m]" by (simp add: split)
  then have range: "0 \<le> c" "c \<le> m" by simp_all
  have "sorted (us @ c # vs)" using sorted_upto [of 0 m] by (simp only: split)
  then have after: "\<forall>x \<in> set vs. c \<le> x" by (simp add: sorted_append)
  have "c' \<in> used" if "0 \<le> c'" "c' < c" for c'
  proof -
    from that range have "c' \<in> set [0..m]" by simp
    then have "c' \<in> set (us @ c # vs)" by (simp only: split)
    then have "c' \<in> set us \<or> c' = c \<or> c' \<in> set vs" by auto
    with that after have "c' \<in> set us" by auto
    with before show ?thesis by blast
  qed
  with range free show ?thesis by (simp add: smallestFree_def)
qed

lemma none_available:
  assumes "filter (\<lambda>c. c \<notin> used) [0..m] = []"
  shows "\<forall>c. 0 \<le> c \<and> c \<le> m \<longrightarrow> c \<in> used"
  using assms by (auto simp: filter_empty_conv)

section \<open>DSATUR's choice of the next vertex\<close>

lemma collect_rowDegree:
  assumes "collect (rowDegree adj) is = Inr ds"
  shows "ds = map (\<lambda>i. sum_list (adj ! i)) is"
  using assms
  by (induction "is" arbitrary: ds) (auto simp: rowDegree_def split: sum.splits if_splits)

lemma scanned_skip:
  assumes "scanned g colors k st" "colors ! k \<noteq> - 1"
  shows "scanned g colors (Suc k) st"
  using assms by (auto simp: scanned_def less_Suc_eq split: prod.splits option.splits)

lemma scanned_take:
  assumes "scanned g colors k (maxSat, maxDeg, chosen)" "colors ! k = - 1"
    and better: "int (saturation g colors k) > maxSat \<or>
       (int (saturation g colors k) = maxSat \<and> rawDegree g k > maxDeg)"
  shows "scanned g colors (Suc k) (int (saturation g colors k), rawDegree g k, Some k)"
proof (cases chosen)
  case None
  with assms(1,2) show ?thesis
    by (auto simp: scanned_def less_Suc_eq preferred_def)
next
  case (Some v)
  with assms(1) have v: "maxSat = int (saturation g colors v)" "maxDeg = rawDegree g v"
    and all: "\<forall>u < k. colors ! u = - 1 \<longrightarrow> preferred g colors v u"
    by (simp_all add: scanned_def)
  have "preferred g colors k u" if "u < Suc k" "colors ! u = - 1" for u
  proof (cases "u = k")
    case True
    then show ?thesis by (simp add: preferred_def)
  next
    case False
    with that all have "preferred g colors v u" by simp
    with better v show ?thesis unfolding preferred_def by linarith
  qed
  with assms(2) show ?thesis by (simp add: scanned_def)
qed

lemma scanned_keep:
  assumes "scanned g colors k (maxSat, maxDeg, chosen)" "colors ! k = - 1"
    and worse: "\<not> (int (saturation g colors k) > maxSat \<or>
       (int (saturation g colors k) = maxSat \<and> rawDegree g k > maxDeg))"
  shows "scanned g colors (Suc k) (maxSat, maxDeg, chosen)"
proof (cases chosen)
  case None
  with assms(1) have "maxSat = - 1" by (simp add: scanned_def)
  with worse show ?thesis by simp
next
  case (Some v)
  with assms(1) have v: "v < k" "colors ! v = - 1" "maxSat = int (saturation g colors v)"
    "maxDeg = rawDegree g v"
    and all: "\<forall>u < k. colors ! u = - 1 \<longrightarrow> preferred g colors v u"
    by (simp_all add: scanned_def)
  have "preferred g colors v k"
    using worse v unfolding preferred_def by linarith
  with all have "\<forall>u < Suc k. colors ! u = - 1 \<longrightarrow> preferred g colors v u"
    by (simp add: less_Suc_eq)
  with v Some show ?thesis by (simp add: scanned_def)
qed

lemma selectVertex_scanned:
  assumes wf: "wf_graph g" and len: "length colors = length (nodes g)"
    and deg: "degree = map (rawDegree g) [0..<length (nodes g)]"
  shows "k \<le> length (nodes g) \<Longrightarrow> scanned g colors k st \<Longrightarrow>
    \<exists>st'. selectVertex (adjacency g) colors degree [k..<length (nodes g)] st = Inr st' \<and>
          scanned g colors (length (nodes g)) st'"
proof (induction "length (nodes g) - k" arbitrary: k st)
  case 0
  then show ?case by simp
next
  case (Suc d)
  let ?n = "length (nodes g)"
  from Suc.hyps(2) have k: "k < ?n" by simp
  then have upt: "[k..<?n] = k # [Suc k..<?n]" by (rule upt_conv_Cons)
  obtain maxSat maxDeg chosen where st: "st = (maxSat, maxDeg, chosen)" by (cases st)
  have sat: "getSaturationDegree k colors (adjacency g) = Inr (int (saturation g colors k))"
    using wf len k by (rule getSaturationDegree_wf)
  have dk: "degree ! k = rawDegree g k" using k by (simp add: deg)
  have d: "d = ?n - Suc k" using Suc.hyps(2) by simp
  have le: "Suc k \<le> ?n" using k by simp
  show ?case
  proof (cases "colors ! k = - 1")
    case False
    then have step: "selectVertex (adjacency g) colors degree [k..<?n] st =
        selectVertex (adjacency g) colors degree [Suc k..<?n] st"
      by (simp add: upt st)
    from Suc.hyps(1) [OF d le scanned_skip [OF Suc.prems(2) False]]
    show ?thesis by (simp only: step)
  next
    case True
    show ?thesis
    proof (cases "int (saturation g colors k) > maxSat \<or>
       (int (saturation g colors k) = maxSat \<and> rawDegree g k > maxDeg)")
      case better: True
      then have step: "selectVertex (adjacency g) colors degree [k..<?n] st =
          selectVertex (adjacency g) colors degree [Suc k..<?n]
            (int (saturation g colors k), rawDegree g k, Some k)"
        using True by (simp add: upt st sat dk)
      from Suc.hyps(1) [OF d le scanned_take [OF Suc.prems(2) [unfolded st] True better]]
      show ?thesis by (simp only: step)
    next
      case worse: False
      then have step: "selectVertex (adjacency g) colors degree [k..<?n] st =
          selectVertex (adjacency g) colors degree [Suc k..<?n] (maxSat, maxDeg, chosen)"
        using True by (auto simp add: upt st sat dk)
      from Suc.hyps(1) [OF d le scanned_keep [OF Suc.prems(2) [unfolded st] True worse]]
      show ?thesis by (simp only: step)
    qed
  qed
qed

lemma degree_rawDegree:
  assumes "collect (rowDegree (adjacency g)) [0..<length (nodes g)] = Inr degree"
  shows "degree = map (rawDegree g) [0..<length (nodes g)]"
  using collect_rowDegree [OF assms] by (simp add: rawDegree_def)

text \<open>
  While a vertex is uncolored the loop body neither raises nor breaks: it colors a
  vertex or ends in the invalid assignment.
\<close>

lemma dsatur_step_progress:
  assumes "wf_graph g" "length colors = length (nodes g)"
    and "collect (rowDegree (adjacency g)) [0..<length (nodes g)] = Inr degree"
    and "u < length (nodes g)" "colors ! u = - 1"
  shows "dsatur_step g maxColors degree colors = Inr Exhausted \<or>
         (\<exists>v c. dsatur_step g maxColors degree colors = Inr (Colored v c))"
proof -
  let ?n = "length (nodes g)"
  have deg: "degree = map (rawDegree g) [0..<?n]" using assms(3) by (rule degree_rawDegree)
  have init: "scanned g colors 0 (- 1, - 1, None)" by (simp add: scanned_def)
  from selectVertex_scanned [OF assms(1,2) deg _ init]
  obtain st' where sel: "selectVertex (adjacency g) colors degree [0..<?n] (- 1, - 1, None) = Inr st'"
    and sc: "scanned g colors ?n st'"
    by auto
  obtain maxSat maxDeg chosen where st': "st' = (maxSat, maxDeg, chosen)" by (cases st')
  from sc st' assms(4,5) obtain v where ch: "chosen = Some v" and v: "v < ?n"
    by (cases chosen) (auto simp: scanned_def)
  have av: "getAvailableColors v colors (adjacency g) maxColors =
     Inr (filter (\<lambda>c. c \<notin> neighbourColors g colors v) [0..maxColors - 1])"
    using assms(1,2) v by (rule getAvailableColors_wf)
  show ?thesis
    by (cases "filter (\<lambda>c. c \<notin> neighbourColors g colors v) [0..maxColors - 1]")
      (simp_all add: dsatur_step_def sel st' ch av)
qed



section \<open>Greedy\<close>

lemma length_applyConstraints: "length (applyConstraints ns cs colors) = length colors"
  unfolding applyConstraints_def
  by (induction cs arbitrary: colors)
    (auto simp: applyConstraint_def split: option.splits)

lemma length_initialColors: "length (initialColors g opts) = length (nodes g)"
  by (simp add: initialColors_def length_applyConstraints split: option.splits)

lemma greedy_loop_run:
  "wf_graph g \<Longrightarrow> greedy_run g maxColors colors0 i colors \<Longrightarrow> i \<le> length (nodes g) \<Longrightarrow>
    length colors = length (nodes g) \<Longrightarrow>
    (\<exists>colors'. greedy_loop g maxColors i colors = Inr (Some colors') \<and>
        length colors' = length (nodes g) \<and>
        greedy_run g maxColors colors0 (length (nodes g)) colors') \<or>
    (greedy_loop g maxColors i colors = Inr None \<and>
       (\<exists>k colors'. greedy_run g maxColors colors0 k colors' \<and> stuck g maxColors colors' k))"
proof (induction g maxColors i colors rule: greedy_loop.induct)
  case (1 g maxColors i colors)
  let ?n = "length (nodes g)"
  show ?case
  proof (cases "i < ?n")
    case False
    with "1.prems" have "i = ?n" by simp
    with "1.prems" False show ?thesis by (subst greedy_loop.simps) simp
  next
    case i: True
    show ?thesis
    proof (cases "colors ! i = - 1")
      case False
      have run: "greedy_run g maxColors colors0 (Suc i) colors"
        using "1.prems"(2) i False by (rule run_keep)
      have eq: "greedy_loop g maxColors i colors = greedy_loop g maxColors (i + 1) colors"
        using i False by (subst greedy_loop.simps) simp
      from "1.IH"(2) [OF i False "1.prems"(1)] run i "1.prems"(4)
      show ?thesis by (simp add: eq)
    next
      case True
      let ?avail = "filter (\<lambda>c. c \<notin> neighbourColors g colors i) [0..maxColors - 1]"
      have av: "getAvailableColors i colors (adjacency g) maxColors = Inr ?avail"
        using "1.prems"(1,4) i by (rule getAvailableColors_wf)
      show ?thesis
      proof (cases ?avail)
        case Nil
        then have "\<forall>c. 0 \<le> c \<and> c \<le> maxColors - 1 \<longrightarrow> c \<in> neighbourColors g colors i"
          by (rule none_available)
        then have "stuck g maxColors colors i" using i True by (simp add: stuck_def)
        moreover have "greedy_loop g maxColors i colors = Inr None"
          using i True av Nil by (subst greedy_loop.simps) simp
        ultimately show ?thesis using "1.prems"(2) by blast
      next
        case (Cons c rest)
        from first_available [OF Cons]
        have c: "smallestFree (neighbourColors g colors i) c" "c < maxColors" by simp_all
        have run: "greedy_run g maxColors colors0 (Suc i) (colors[i := c])"
          using "1.prems"(2) i True c by (rule run_color)
        have eq: "greedy_loop g maxColors i colors =
            greedy_loop g maxColors (i + 1) (colors[i := c])"
          using i True av Cons by (subst greedy_loop.simps) simp
        from "1.IH"(1) [OF i True av Cons "1.prems"(1)] run i "1.prems"(4)
        show ?thesis by (simp add: eq)
      qed
    qed
  qed
qed

text \<open>
  Claim C5. On a graph with a square matrix Greedy raises nothing and returns either
  \<^item> a valid assignment, the output of a run over all the nodes in input order, or
  \<^item> the invalid assignment with the empty mapping, in which case a run reached a
    node that has no color index below \<open>maxColors\<close> left (every node before it was
    kept or colored by the rule, so it is the first such node).
\<close>

theorem greedy_compute_run:
  assumes "wf_graph g"
  shows "\<exists>r. greedy_compute g opts = Inr r \<and>
    ((valid r \<and>
        (\<exists>colors. greedy_run g (resolveMaxColors opts) (initialColors g opts) (length (nodes g)) colors \<and>
           assignments r = fst (toOutput (nodes g) colors)))
     \<or> (\<not> valid r \<and> assignments r = [] \<and>
        (\<exists>k colors. greedy_run g (resolveMaxColors opts) (initialColors g opts) k colors \<and>
           stuck g (resolveMaxColors opts) colors k)))"
proof -
  let ?mc = "resolveMaxColors opts" and ?c0 = "initialColors g opts"
  have start: "greedy_run g ?mc ?c0 0 ?c0" by (rule run_start)
  from greedy_loop_run [OF assms start _ length_initialColors]
  consider colors where "greedy_loop g ?mc 0 ?c0 = Inr (Some colors)"
      "greedy_run g ?mc ?c0 (length (nodes g)) colors"
    | k colors where "greedy_loop g ?mc 0 ?c0 = Inr None"
      "greedy_run g ?mc ?c0 k colors" "stuck g ?mc colors k"
    by auto
  then show ?thesis
  proof cases
    case 1
    then show ?thesis
      by (auto simp: greedy_compute_def Let_def split: prod.splits)
  next
    case 2
    then show ?thesis
      by (auto simp: greedy_compute_def Let_def)
  qed
qed

theorem greedy_compute_run_witness:
  "wf_graph \<lparr>nodes = [''a'', ''b'', ''c''], edges = [], adjacency = [[0, 1, 1], [1, 0, 1], [1, 1, 0]]\<rparr> \<and>
   greedy_compute
     \<lparr>nodes = [''a'', ''b'', ''c''], edges = [], adjacency = [[0, 1, 1], [1, 0, 1], [1, 1, 0]]\<rparr>
     \<lparr>opt_algorithm = None, opt_maxColors = Some 2, opt_constraints = None\<rparr>
   = Inr \<lparr>assignments = [], palette = [Hex ''#E63946'', Hex ''#457B9D''], chromatic = 0,
          valid = False, metadata = None\<rparr> \<and>
   (\<exists>k colors.
      greedy_run
        \<lparr>nodes = [''a'', ''b'', ''c''], edges = [], adjacency = [[0, 1, 1], [1, 0, 1], [1, 1, 0]]\<rparr>
        2 [- 1, - 1, - 1] k colors \<and>
      stuck
        \<lparr>nodes = [''a'', ''b'', ''c''], edges = [], adjacency = [[0, 1, 1], [1, 0, 1], [1, 1, 0]]\<rparr>
        2 colors k)"
proof -
  let ?g = "\<lparr>nodes = [''a'', ''b'', ''c''], edges = [],
             adjacency = [[0, 1, 1], [1, 0, 1], [1, 1, 0]]\<rparr>"
  let ?o = "\<lparr>opt_algorithm = None, opt_maxColors = Some 2, opt_constraints = None\<rparr>"
  have wf: "wf_graph ?g" by (simp add: wf_graph_def square_def)
  have ev: "greedy_compute ?g ?o =
      Inr \<lparr>assignments = [], palette = [Hex ''#E63946'', Hex ''#457B9D''], chromatic = 0,
          valid = False, metadata = None\<rparr>"
    by code_simp
  have mc: "resolveMaxColors ?o = 2" by (simp add: resolveMaxColors_def)
  have c0: "initialColors ?g ?o = [- 1, - 1, - 1]" by (simp add: initialColors_def)
  from greedy_compute_run [OF wf, of ?o] ev
  have "\<exists>k colors. greedy_run ?g (resolveMaxColors ?o) (initialColors ?g ?o) k colors \<and>
      stuck ?g (resolveMaxColors ?o) colors k"
    by auto
  then have "\<exists>k colors. greedy_run ?g 2 [- 1, - 1, - 1] k colors \<and> stuck ?g 2 colors k"
    by (simp only: mc c0)
  with wf ev show ?thesis by blast
qed

section \<open>The palette of a computed assignment\<close>


















section \<open>Manual edits and undo\<close>

text \<open>What \<^verbatim>\<open>assignColor\<close> stores in \<^verbatim>\<open>chromatic\<close> is the number of distinct values of the mapping.\<close>

lemma assignColor_chromatic:
  assumes "assignColor now e node ci = (Inr (), e')"
  shows "\<exists>cur. currentColoring e' = Some cur \<and>
           chromatic cur = int (card (snd ` set (assignments cur)))"
  using assms
  by (auto simp: assignColor_def Let_def length_remdups_card_conv split: sum.splits)

lemma push_at_cursor:
  assumes "history_inv c h" "2 \<le> c" "0 \<le> index h"
  shows "history_undo (push h s) =
     (Some (stack h ! nat (index h)), (push h s)\<lparr>index := index (push h s) - 1\<rparr>)"
proof -
  let ?s1 = "take (nat (index h + 1)) (stack h) @ [s]"
  have inv: "maxSteps h = c" "int (length (stack h)) \<le> c" "index h < int (length (stack h))"
    using assms(1) by (simp_all add: history_inv_def)
  have len1: "length ?s1 = nat (index h) + 2" using inv assms(3) by (simp add: min_def) linarith
  have at: "?s1 ! nat (index h) = stack h ! nat (index h)"
    using inv assms(3) by (simp add: nth_append)
  have s1: "slice0 (stack h) (index h + 1) @ [s] = ?s1"
    using assms(3) by (simp add: slice0_def)
  show ?thesis
  proof (cases "int (length ?s1) > c")
    case True
    with inv len1 assms(3) have full: "index h + 1 = c" by linarith
    have st: "stack (push h s) = tl ?s1" and ix: "index (push h s) = int (length (tl ?s1)) - 1"
      using True inv(1) by (simp_all add: push_def Let_def s1 del: length_append)
    have ltl: "length (tl ?s1) = nat (index h) + 1" using len1 by simp
    have pos: "index (push h s) = index h" using ltl assms(3) by (simp add: ix del: length_append)
    have "1 \<le> index h" using full assms(2) by linarith
    then have el: "tl ?s1 ! nat (index h - 1) = ?s1 ! nat (index h)"
      using len1 by (simp add: nth_tl nat_diff_distrib del: length_append)
    have inr: "nat (index h - 1) < length (tl ?s1)" using ltl \<open>1 \<le> index h\<close> by linarith
    show ?thesis
      using \<open>1 \<le> index h\<close> inr el at
      by (simp add: history_undo_def Let_def pos st elemAtInt_def elemAt_def del: length_append)
  next
    case False
    have st: "stack (push h s) = ?s1" and ix: "index (push h s) = int (length ?s1) - 1"
      using False inv(1) by (simp_all add: push_def Let_def s1 del: length_append)
    have pos: "index (push h s) = index h + 1" using len1 assms(3) by (simp add: ix del: length_append)
    have inr: "nat (index h) < length ?s1" using len1 by linarith
    show ?thesis
      using assms(3) inr at
      by (simp add: history_undo_def Let_def pos st elemAtInt_def elemAt_def del: length_append)
  qed
qed

text \<open>
  Claim C7, as the code has it. In an engine state whose history has room for two
  snapshots and has its cursor on a snapshot of the current assignment (as after
  \<^verbatim>\<open>computeColoring\<close>, \<^verbatim>\<open>assignColor\<close>, \<^verbatim>\<open>reset\<close>, or an \<^verbatim>\<open>undo\<close> or \<^verbatim>\<open>redo\<close> that
  returned one), an \<^verbatim>\<open>assignColor\<close> that returns normally followed by \<^verbatim>\<open>undo\<close> gives back
  the assignment that was current before, as a value, and makes it current.
\<close>

theorem assignColor_undo_roundtrip:
  assumes "history_inv c (stateManager e)" "2 \<le> c" "0 \<le> index (stateManager e)"
    and "currentColoring e = Some cur"
    and "coloring (stack (stateManager e) ! nat (index (stateManager e))) = cur"
    and "assignColor now e node ci = (Inr (), e1)"
  shows "fst (undo e1) = Some cur \<and> currentColoring (snd (undo e1)) = Some cur"
proof -
  from assms(6) obtain s where "stateManager e1 = push (stateManager e) s"
    by (auto simp: assignColor_def Let_def pushState_def split: sum.splits)
  with push_at_cursor [OF assms(1,2,3), of s] assms(5) show ?thesis
    by (simp add: undo_def)
qed

theorem assignColor_undo_roundtrip_witness:
  "history_inv 20 (stateManager (reset 1 (loadGraph (newTheoremEngine None)
      \<lparr>input_nodes = [''a''], input_edges = [], input_adjacency = None\<rparr>))) \<and>
   currentColoring (reset 1 (loadGraph (newTheoremEngine None)
      \<lparr>input_nodes = [''a''], input_edges = [], input_adjacency = None\<rparr>))
     = Some (emptyColoring defaultPalette) \<and>
   fst (assignColor 2 (reset 1 (loadGraph (newTheoremEngine None)
      \<lparr>input_nodes = [''a''], input_edges = [], input_adjacency = None\<rparr>)) ''a'' 0)
     = Inr () \<and>
   fst (undo (snd (assignColor 2 (reset 1 (loadGraph (newTheoremEngine None)
      \<lparr>input_nodes = [''a''], input_edges = [], input_adjacency = None\<rparr>)) ''a'' 0)))
     = Some (emptyColoring defaultPalette) \<and>
   currentColoring (snd (undo (snd (assignColor 2 (reset 1 (loadGraph (newTheoremEngine None)
      \<lparr>input_nodes = [''a''], input_edges = [], input_adjacency = None\<rparr>)) ''a'' 0))))
     = Some (emptyColoring defaultPalette)"
proof -
  let ?e = "reset 1 (loadGraph (newTheoremEngine None)
      \<lparr>input_nodes = [''a''], input_edges = [], input_adjacency = None\<rparr>)"
  let ?cur = "emptyColoring defaultPalette"
  have sm: "stateManager ?e =
      \<lparr>maxSteps = 20,
       stack = [\<lparr>coloring = ?cur, timestamp = 1, action = ResetToUncolored\<rparr>],
       index = 0\<rparr>"
    by (simp add: reset_def loadGraph_def newTheoremEngine_def Let_def
        newStateManager_def newHistoryManager_def clear_def pushState_def push_def slice0_def)
  have inv: "history_inv 20 (stateManager ?e)" by (simp add: sm history_inv_def)
  have ix: "0 \<le> index (stateManager ?e)" by (simp add: sm)
  have cur: "currentColoring ?e = Some ?cur" by (simp add: reset_def Let_def)
  have snap: "coloring (stack (stateManager ?e) ! nat (index (stateManager ?e))) = ?cur"
    by (simp add: sm)
  have ok: "fst (assignColor 2 ?e ''a'' 0) = Inr ()" by code_simp
  then have run: "assignColor 2 ?e ''a'' 0 = (Inr (), snd (assignColor 2 ?e ''a'' 0))"
    by (simp add: prod_eq_iff)
  have "(2::int) \<le> 20" by simp
  from assignColor_undo_roundtrip [OF inv this ix cur snap run] inv cur ok
  show ?thesis by simp
qed

text \<open>
  Claim C7 as stated fails in an engine whose history has capacity 1: the push of
  \<^verbatim>\<open>assignColor\<close> discards the snapshot of the assignment that was current (here the
  empty one that \<^verbatim>\<open>reset\<close> recorded), \<^verbatim>\<open>undo\<close> returns nothing, and the node stays colored.
\<close>

theorem assignColor_undo_capacity_one_counterexample:
  "currentColoring (reset 1 (loadGraph (newTheoremEngine (Some 1))
      \<lparr>input_nodes = [''a''], input_edges = [], input_adjacency = None\<rparr>))
     = Some \<lparr>assignments = [],
             palette = [Hex ''#E63946'', Hex ''#457B9D'', Hex ''#F1C40F'', Hex ''#27AE60''],
             chromatic = 0, valid = False, metadata = None\<rparr> \<and>
   fst (undo (snd (assignColor 2 (reset 1 (loadGraph (newTheoremEngine (Some 1))
      \<lparr>input_nodes = [''a''], input_edges = [], input_adjacency = None\<rparr>)) ''a'' 0)))
     = None \<and>
   currentColoring (snd (undo (snd (assignColor 2 (reset 1 (loadGraph (newTheoremEngine (Some 1))
      \<lparr>input_nodes = [''a''], input_edges = [], input_adjacency = None\<rparr>)) ''a'' 0))))
     = Some \<lparr>assignments = [(''a'', 0)],
             palette = [Hex ''#E63946'', Hex ''#457B9D'', Hex ''#F1C40F'', Hex ''#27AE60''],
             chromatic = 1, valid = True, metadata = None\<rparr>"
  by code_simp

text \<open>
  The same happens right after \<^verbatim>\<open>loadGraph\<close>, which empties the history and, unlike
  \<^verbatim>\<open>reset\<close>, records no snapshot of the empty assignment: the first \<^verbatim>\<open>assignColor\<close>
  leaves one snapshot, \<^verbatim>\<open>undo\<close> reports that nothing changed, and the current
  assignment still maps \<open>a\<close> to 0.
\<close>

lemma assignColor_undo_after_load:
  "currentColoring (loadGraph (newTheoremEngine None)
      \<lparr>input_nodes = [''a''], input_edges = [], input_adjacency = None\<rparr>)
     = Some \<lparr>assignments = [], palette = [], chromatic = 0, valid = False, metadata = None\<rparr> \<and>
   fst (undo (snd (assignColor 5
      (loadGraph (newTheoremEngine None)
         \<lparr>input_nodes = [''a''], input_edges = [], input_adjacency = None\<rparr>) ''a'' 0))) = None \<and>
   currentColoring (snd (undo (snd (assignColor 5
      (loadGraph (newTheoremEngine None)
         \<lparr>input_nodes = [''a''], input_edges = [], input_adjacency = None\<rparr>) ''a'' 0))))
     = Some \<lparr>assignments = [(''a'', 0)], palette = [], chromatic = 1, valid = True,
             metadata = None\<rparr>"
  by code_simp

end
